theory Spec2Isabelle
  imports
    Complex_Main
    "HOL-Library.Char_ord"
    "HOL-Library.List_Lexorder"
    "HOL-Library.Product_Lexorder"
    "HOL-Library.AList"
begin

section \<open>Python strings\<close>

text \<open>
  A Python \<open>str\<close> is modelled as a \<^typ>\<open>string\<close> holding its UTF-8 bytes. The order of
  \<^typ>\<open>string\<close> (bytes compared lexicographically, a proper prefix first) is then the order
  Python's \<open>sorted\<close> uses on \<open>str\<close>, because UTF-8 keeps the order of code points.
  Lower-casing acts on the ASCII letters, which is all that the fixed column names of the
  pipeline contain.
\<close>

definition digit_char :: "nat \<Rightarrow> char" where
  "digit_char d = ''0123456789'' ! d"

text \<open>\<open>str(n)\<close> for a non-negative integer.\<close>

function str_nat :: "nat \<Rightarrow> string" where
  "str_nat n =
     (if n < 10 then [digit_char n]
      else str_nat (n div 10) @ [digit_char (n mod 10)])"
  by pat_completeness auto
termination
  by (relation "measure id") auto

declare str_nat.simps [simp del]

text \<open>
  \<open>str.zfill(width)\<close>: zeros are put on the left up to \<open>width\<close>, after a leading sign
  if there is one; a string that is long enough is returned as it is.
\<close>

definition zfill :: "nat \<Rightarrow> string \<Rightarrow> string" where
  "zfill width s =
     (if width \<le> length s then s
      else (case s of
              c # rest \<Rightarrow>
                if c = CHR ''+'' \<or> c = CHR ''-''
                then c # replicate (width - length s) CHR ''0'' @ rest
                else replicate (width - length s) CHR ''0'' @ s
            | [] \<Rightarrow> replicate width CHR ''0''))"

text \<open>\<open>sep.join(parts)\<close>.\<close>

fun join :: "string \<Rightarrow> string list \<Rightarrow> string" where
  "join sep [] = []"
| "join sep [p] = p"
| "join sep (p # q # ps) = p @ sep @ join sep (q # ps)"

definition lower_char :: "char \<Rightarrow> char" where
  "lower_char c =
     (case map_of (zip ''ABCDEFGHIJKLMNOPQRSTUVWXYZ'' ''abcdefghijklmnopqrstuvwxyz'') c of
        Some l \<Rightarrow> l
      | None \<Rightarrow> c)"

definition lower :: "string \<Rightarrow> string" where
  "lower s = map lower_char s"

text \<open>\<open>s.replace(a, b)\<close> for single characters \<open>a\<close> and \<open>b\<close>.\<close>

definition replace_char :: "char \<Rightarrow> char \<Rightarrow> string \<Rightarrow> string" where
  "replace_char a b s = map (\<lambda>c. if c = a then b else c) s"

section \<open>Dictionaries\<close>

text \<open>
  A Python \<open>dict\<close> is an association list in insertion order with one entry per key:
  storing under a key that is present overwrites the value where it stands, storing under
  a new key appends. A dict comprehension stores its items one after the other.
\<close>

definition dict_of_items :: "('k \<times> 'v) list \<Rightarrow> ('k \<times> 'v) list" where
  "dict_of_items items = foldl (\<lambda>d (k, v). AList.update k v d) [] items"

section \<open>Cells, series and frames\<close>

text \<open>
  A calendar date is the triple (year, month, day), compared lexicographically as Python's
  \<open>datetime.date\<close>. A cell of a table is missing (\<open>NaN\<close>, \<open>NaT\<close>, \<open>pd.NA\<close>), a text, an
  integer, a number, a timestamp (calendar date and nanoseconds since midnight) or a
  calendar date. A number cell holds the rational that the int64 or float64 value denotes.
  Where the code adds or averages numbers, the result is what pandas computes in the dtype
  of the column and is a parameter of the model (\<open>S\<close>, \<open>H\<close> and \<open>M\<close> below): the wrap-around
  of int64 and the rounding of float64 are not assumed away.
\<close>

type_synonym date = "int \<times> int \<times> int"

datatype cell = NA | Str string | IntVal int | Num rat | Ts date nat | Day date

type_synonym series = "cell list"

text \<open>
  A \<open>DataFrame\<close> is the list of its columns in order, each a label and a series. Labels
  may repeat (\<open>rename\<close> can produce that); the rows are the positions of the series.
\<close>

type_synonym frame = "(string \<times> series) list"

datatype error =
    ValueError string
  | KeyError string
  | TypeError string
  | AttributeError string
  | FileNotFoundError string

text \<open>The files the scripts read and write: a path holds a table or does not exist.\<close>

type_synonym files = "string \<Rightarrow> frame option"

definition and_then :: "error + 'a \<Rightarrow> ('a \<Rightarrow> error + 'b) \<Rightarrow> error + 'b" where
  "and_then m f = (case m of Inl e \<Rightarrow> Inl e | Inr x \<Rightarrow> f x)"

definition columns :: "frame \<Rightarrow> string list" where
  "columns df = map fst df"

definition isna :: "cell \<Rightarrow> bool" where
  "isna c = (c = NA)"

text \<open>\<open>df[label]\<close>: every column carrying the label, in order.\<close>

definition getitem :: "frame \<Rightarrow> string \<Rightarrow> series list" where
  "getitem df label = map snd (filter (\<lambda>(n, s). n = label) df)"

text \<open>
  \<open>df[label]\<close> where the code goes on to use the result as a \<open>Series\<close>. A missing label is
  a \<open>KeyError\<close>; a repeated label gives a \<open>DataFrame\<close>, on which the consumer raises \<open>err\<close>.
\<close>

definition series_of :: "error \<Rightarrow> frame \<Rightarrow> string \<Rightarrow> error + series" where
  "series_of err df label =
     (case getitem df label of
        [] \<Rightarrow> Inl (KeyError label)
      | [s] \<Rightarrow> Inr s
      | _ \<Rightarrow> Inl err)"

text \<open>\<open>df[label] = s\<close>: overwrite the column(s) with that label, or append a new column.\<close>

definition setitem :: "frame \<Rightarrow> string \<Rightarrow> series \<Rightarrow> frame" where
  "setitem df label s =
     (if label \<in> set (columns df)
      then map (\<lambda>(n, old). if n = label then (n, s) else (n, old)) df
      else df @ [(label, s)])"

text \<open>\<open>df.drop(columns=labels)\<close>: a label that is not a column is a \<open>KeyError\<close>.\<close>

definition drop_columns :: "string list \<Rightarrow> frame \<Rightarrow> error + frame" where
  "drop_columns labels df =
     (case filter (\<lambda>l. l \<notin> set (columns df)) labels of
        [] \<Rightarrow> Inr (filter (\<lambda>(n, s). n \<notin> set labels) df)
      | l # _ \<Rightarrow> Inl (KeyError l))"

text \<open>\<open>df.rename(columns=renamed)\<close>.\<close>

definition rename_columns :: "(string \<times> string) list \<Rightarrow> frame \<Rightarrow> frame" where
  "rename_columns renamed df =
     map (\<lambda>(n, s). (case map_of renamed n of Some t \<Rightarrow> t | None \<Rightarrow> n, s)) df"

text \<open>
  \<open>df[[l1, l2, ...]]\<close>: for each requested label in turn, every column carrying it;
  a label that is not a column is a \<open>KeyError\<close>.
\<close>

definition select_columns :: "string list \<Rightarrow> frame \<Rightarrow> error + frame" where
  "select_columns labels df =
     (case filter (\<lambda>l. l \<notin> set (columns df)) labels of
        [] \<Rightarrow> Inr (concat (map (\<lambda>l. filter (\<lambda>(n, s). n = l) df) labels))
      | l # _ \<Rightarrow> Inl (KeyError l))"

text \<open>\<open>df.loc[mask]\<close>: the rows at which the boolean mask is true.\<close>

definition mask_series :: "bool list \<Rightarrow> series \<Rightarrow> series" where
  "mask_series keep s = map fst (filter snd (zip s keep))"


section \<open>data_cleansing.py\<close>

definition raw_path :: string where
  "raw_path =
     ''/Users/brandon/Desktop/mosa-tea-demand-forecasting/data/raw/orders-2025-10-01-2025-10-31.csv''"

definition clean_path :: string where
  "clean_path = ''data/clean/orders-2025-10-01-2025-10-31_anonymized.csv''"

definition mapping_dir :: string where
  "mapping_dir = ''data/private''"

definition item_mapping_path :: string where
  "item_mapping_path = mapping_dir @ ''/'' @ ''item_name_mapping.csv''"

definition modifier_mapping_path :: string where
  "modifier_mapping_path = mapping_dir @ ''/'' @ ''item_modifier_mapping.csv''"

definition pii_columns :: "string list" where
  "pii_columns =
     [''Order Name'',
      ''Recipient Name'',
      ''Recipient Email'',
      ''Recipient Phone'',
      ''Recipient Address'',
      ''Recipient Address 2'',
      ''Recipient Postal Code'',
      ''Recipient City'',
      ''Recipient Region'',
      ''Recipient Country'',
      ''Fulfillment Notes'']"

text \<open>The configuration, in the order in which the dict is iterated.\<close>

definition SENSITIVE_CATEGORICALS :: "(string \<times> string \<times> string) list" where
  "SENSITIVE_CATEGORICALS =
     [(''Item Name'', ''Item ID'', ''MTI''),
      (''Item Modifiers'', ''Modifier ID'', ''MTM'')]"

definition str_int :: "int \<Rightarrow> string" where
  "str_int i = (if i < 0 then CHR ''-'' # str_nat (nat (- i)) else str_nat (nat i))"

text \<open>
  \<open>astype(str)\<close> on one cell. A text is itself, a missing cell becomes the text \<open>nan\<close>, an
  integer its decimal digits; how Python prints a float or a date is the parameter \<open>fmt\<close>.
\<close>

definition astype_str :: "(cell \<Rightarrow> string) \<Rightarrow> cell \<Rightarrow> string" where
  "astype_str fmt c =
     (case c of
        NA \<Rightarrow> ''nan''
      | Str s \<Rightarrow> s
      | IntVal i \<Rightarrow> str_int i
      | _ \<Rightarrow> fmt c)"

definition dropna :: "series \<Rightarrow> series" where
  "dropna s = filter (\<lambda>c. \<not> isna c) s"

text \<open>\<open>unique()\<close>: the distinct values in the order of their first appearance.\<close>

definition unique :: "'a list \<Rightarrow> 'a list" where
  "unique xs = rev (remdups (rev xs))"

definition make_codebook :: "(cell \<Rightarrow> string) \<Rightarrow> series \<Rightarrow> string \<Rightarrow> (string \<times> string) list" where
  "make_codebook fmt series prefix =
     (let values = unique (map (astype_str fmt) (dropna series));
          values = sort values
      in dict_of_items
           (map (\<lambda>(i, val). (val, prefix @ zfill 4 (str_nat (i + 1)))) (enumerate 0 values)))"

text \<open>The mapping table written by \<open>save_mapping\<close>: one row per item of the dict.\<close>

definition mapping_df :: "(string \<times> string) list \<Rightarrow> string \<Rightarrow> string \<Rightarrow> frame" where
  "mapping_df mapping left_name right_name =
     [(left_name, map (Str \<circ> fst) mapping), (right_name, map (Str \<circ> snd) mapping)]"

definition save_mapping ::
  "(string \<times> string) list \<Rightarrow> string \<Rightarrow> string \<Rightarrow> string \<Rightarrow> files \<Rightarrow> files" where
  "save_mapping mapping out_path left_name right_name fs =
     fs(out_path \<mapsto> mapping_df mapping left_name right_name)"

text \<open>\<open>Series.map(dict)\<close> on a series of texts: a text that is not a key becomes missing.\<close>

definition map_dict :: "(string \<times> string) list \<Rightarrow> string list \<Rightarrow> series" where
  "map_dict d keys = map (\<lambda>k. case map_of d k of Some v \<Rightarrow> Str v | None \<Rightarrow> NA) keys"

text \<open>
  The state of \<open>main\<close> while it loops over the configuration: the table \<open>df_clean\<close>, the
  files, and the diagnostics printed so far (only the \<open>[Skip]\<close> notices are recorded; the
  progress messages are left out).
\<close>

type_synonym cleansing_state = "frame \<times> files \<times> string list"

text \<open>
  One turn of the loop of \<open>main\<close>. When the label of the source column is repeated,
  \<open>df_clean[source_col]\<close> is a \<open>DataFrame\<close> and \<open>make_codebook\<close> fails on \<open>unique\<close>.
\<close>

definition anonymize_column ::
  "(cell \<Rightarrow> string) \<Rightarrow> string \<times> string \<times> string \<Rightarrow> cleansing_state \<Rightarrow> error + cleansing_state" where
  "anonymize_column fmt cfg st =
     (case cfg of (source_col, id_col, prefix) \<Rightarrow>
      case st of (df_clean, fs, notices) \<Rightarrow>
        if source_col \<notin> set (columns df_clean)
        then Inr (df_clean, fs,
               notices @ [CHR 0x0A # ''[Skip] Column not found for anonymization: '' @ source_col])
        else
          and_then
            (series_of (AttributeError ''unique'') df_clean source_col)
            (\<lambda>col.
               let codebook = make_codebook fmt col prefix;
                   df_clean = setitem df_clean id_col (map_dict codebook (map (astype_str fmt) col));
                   fs =
                     (if source_col = ''Item Name''
                      then save_mapping codebook item_mapping_path ''Item Name'' id_col fs
                      else if source_col = ''Item Modifiers''
                      then save_mapping codebook modifier_mapping_path ''Item Modifiers'' id_col fs
                      else save_mapping codebook
                             (mapping_dir @ ''/'' @
                                replace_char CHR '' '' CHR ''_'' (lower source_col) @ ''_mapping.csv'')
                             source_col id_col fs)
               in and_then
                    (drop_columns [source_col] df_clean)
                    (\<lambda>df_clean. Inr (df_clean, fs, notices))))"

fun anonymize_all ::
  "(cell \<Rightarrow> string) \<Rightarrow> (string \<times> string \<times> string) list \<Rightarrow> cleansing_state \<Rightarrow> error + cleansing_state" where
  "anonymize_all fmt [] st = Inr st"
| "anonymize_all fmt (cfg # rest) st =
     and_then (anonymize_column fmt cfg st) (anonymize_all fmt rest)"

text \<open>
  \<open>main\<close> of data_cleansing.py: read the raw table, drop the PII columns that are present,
  replace each configured sensitive column, write the anonymized table. The result is the
  files afterwards and the diagnostics.
\<close>

definition data_cleansing_main :: "(cell \<Rightarrow> string) \<Rightarrow> files \<Rightarrow> error + files \<times> string list" where
  "data_cleansing_main fmt fs =
     (case fs raw_path of
        None \<Rightarrow> Inl (FileNotFoundError raw_path)
      | Some df \<Rightarrow>
          let cols_to_drop = filter (\<lambda>col. col \<in> set (columns df)) pii_columns
          in and_then
               (drop_columns cols_to_drop df)
               (\<lambda>df_clean.
                  and_then
                    (anonymize_all fmt SENSITIVE_CATEGORICALS (df_clean, fs, []))
                    (\<lambda>(df_clean, fs, notices). Inr (fs(clean_path \<mapsto> df_clean), notices))))"

section \<open>make_daily_revenue_weather_v1.py\<close>


definition WEATHER_PATH :: string where
  "WEATHER_PATH = ''data/external/daily_weather.csv''"



definition WEATHER_COLUMN_ALIASES :: "(string \<times> string list) list" where
  "WEATHER_COLUMN_ALIASES =
     [(''date'', [''date'', ''day'', ''obs_date'']),
      (''temp'', [''temp'', ''temperature'', ''temp_f'', ''tavg'']),
      (''rain'', [''rain'', ''precip'', ''precipitation'', ''rainfall'', ''prcp''])]"

subsection \<open>Conversions of pandas\<close>

text \<open>
  \<open>pd.to_datetime(..., errors="coerce")\<close> and \<open>pd.to_numeric(..., errors="coerce")\<close> are
  taken cell by cell, and what they accept is a parameter of the model: \<open>P\<close> gives the
  timestamp a cell parses to and \<open>Q\<close> the number, \<open>None\<close> where pandas coerces to missing.
\<close>

definition to_datetime :: "(cell \<Rightarrow> (date \<times> nat) option) \<Rightarrow> cell \<Rightarrow> cell" where
  "to_datetime P c = (case P c of None \<Rightarrow> NA | Some (d, t) \<Rightarrow> Ts d t)"

definition to_numeric :: "(cell \<Rightarrow> rat option) \<Rightarrow> cell \<Rightarrow> cell" where
  "to_numeric Q c = (case Q c of None \<Rightarrow> NA | Some r \<Rightarrow> Num r)"

text \<open>\<open>.dt.date\<close>: the calendar date of a timestamp, the time of day discarded.\<close>

definition dt_date :: "cell \<Rightarrow> cell" where
  "dt_date c = (case c of Ts d t \<Rightarrow> Day d | _ \<Rightarrow> NA)"

definition day_of :: "cell \<Rightarrow> date option" where
  "day_of c = (case c of Day d \<Rightarrow> Some d | _ \<Rightarrow> None)"

definition num_of :: "cell \<Rightarrow> rat option" where
  "num_of c = (case c of Num r \<Rightarrow> Some r | IntVal i \<Rightarrow> Some (of_int i) | _ \<Rightarrow> None)"

text \<open>
  What pandas raises when a conversion is handed a \<open>DataFrame\<close> (a repeated label)
  instead of a \<open>Series\<close>.
\<close>

definition assemble_error :: error where
  "assemble_error = ValueError ''cannot assemble with duplicate keys''"

definition not_1d_error :: error where
  "not_1d_error = TypeError ''arg must be a list, tuple, 1-d array, or Series''"

definition not_unique_error :: "string \<Rightarrow> error" where
  "not_unique_error label = ValueError (''The column label '' @ label @ '' is not unique.'')"

text \<open>\<open>df[label] = conv(df[label])\<close>.\<close>

definition assign_converted :: "error \<Rightarrow> (cell \<Rightarrow> cell) \<Rightarrow> string \<Rightarrow> frame \<Rightarrow> error + frame" where
  "assign_converted err conv label df =
     and_then (series_of err df label) (\<lambda>s. Inr (setitem df label (map conv s)))"

subsection \<open>Weekdays\<close>







subsection \<open>Grouping by date\<close>

text \<open>
  \<open>groupby("date")\<close>: the groups are the distinct dates in ascending order (rows whose key
  is missing belong to no group); \<open>sum\<close> and \<open>mean\<close> skip missing values, and the mean of
  no value is missing. The sum and the mean of the values that are present are computed by
  pandas in the dtype of the column (the addition of int64 wraps around, that of float64
  rounds), so they are parameters of the model: \<open>S\<close> gives the sum and \<open>M\<close> the mean of the
  cells of a group that are not missing, in the order of the rows.
\<close>

definition group_keys :: "series \<Rightarrow> date list" where
  "group_keys keys = sort (remdups (List.map_filter day_of keys))"

definition group_rows :: "date \<Rightarrow> series \<Rightarrow> series \<Rightarrow> series" where
  "group_rows k keys vals = map snd (filter (\<lambda>(d, v). d = Day k) (zip keys vals))"

definition skipna :: "series \<Rightarrow> series" where
  "skipna vs = filter (\<lambda>c. \<not> isna c) vs"


definition mean_skipna :: "(series \<Rightarrow> cell) \<Rightarrow> series \<Rightarrow> cell" where
  "mean_skipna M vs = (let xs = skipna vs in if xs = [] then NA else M xs)"

subsection \<open>normalize_weather_columns\<close>

definition lower_cols :: "frame \<Rightarrow> (string \<times> string) list" where
  "lower_cols df = dict_of_items (map (\<lambda>col. (lower col, col)) (columns df))"

text \<open>The inner loop: the column of the first alias that is a key of \<open>lower_cols\<close>.\<close>

fun first_alias :: "(string \<times> string) list \<Rightarrow> string list \<Rightarrow> string option" where
  "first_alias lc [] = None"
| "first_alias lc (alias # aliases) =
     (case map_of lc alias of
        Some col \<Rightarrow> Some col
      | None \<Rightarrow> first_alias lc aliases)"

definition resolve_aliases :: "(string \<times> string) list \<Rightarrow> (string \<times> string) list" where
  "resolve_aliases lc =
     foldl (\<lambda>renamed (target, aliases).
              case first_alias lc aliases of
                Some col \<Rightarrow> AList.update col target renamed
              | None \<Rightarrow> renamed)
       [] WEATHER_COLUMN_ALIASES"

definition normalize_weather_columns :: "frame \<Rightarrow> error + frame" where
  "normalize_weather_columns df =
     (let renamed = resolve_aliases (lower_cols df);
          df = rename_columns renamed df;
          missing = filter (\<lambda>col. col \<notin> set (columns df)) [''date'', ''temp'', ''rain'']
      in if missing \<noteq> []
         then Inl (ValueError
                (''Weather file missing required columns. '' @
                 ''Expected columns like: '' @ join '', '' [''date'', ''temp'', ''rain''] @ ''. '' @
                 ''Missing: '' @ join '', '' missing @ ''.''))
         else select_columns [''date'', ''temp'', ''rain''] df)"

subsection \<open>load_orders\<close>


subsection \<open>load_weather\<close>

definition load_weather ::
  "(cell \<Rightarrow> (date \<times> nat) option) \<Rightarrow> (cell \<Rightarrow> rat option) \<Rightarrow> files \<Rightarrow> string \<Rightarrow> error + frame" where
  "load_weather P Q fs path =
     (case fs path of
        None \<Rightarrow>
          Inl (FileNotFoundError
            (''Weather file not found at '' @ path @ ''. '' @
             ''Provide a daily weather CSV with columns for date, temp, and rain.''))
      | Some weather \<Rightarrow>
          and_then (normalize_weather_columns weather) (\<lambda>weather.
          and_then (assign_converted assemble_error (dt_date \<circ> to_datetime P) ''date'' weather) (\<lambda>weather.
          and_then (assign_converted not_1d_error (to_numeric Q) ''temp'' weather) (\<lambda>weather.
          and_then (assign_converted not_1d_error (to_numeric Q) ''rain'' weather) (\<lambda>weather.
          and_then (series_of (KeyError ''date'') weather ''date'') (\<lambda>date.
            if True \<in> set (map isna date)
            then Inl (ValueError ''Weather file has invalid dates in the date column.'')
            else if \<not> distinct date
            then Inl (ValueError ''Weather file has duplicate dates; expected 1 row per day.'')
            else Inr weather))))))"

subsection \<open>prepare_weather_from_raw\<close>





text \<open>
  Lines 118 to 127: the table of \<open>date\<close>, \<open>temp\<close>, \<open>rain\<close> without the rows whose date is
  missing, then one row per date with the means of \<open>temp\<close> and \<open>rain\<close>.
\<close>

definition daily_weather :: "(series \<Rightarrow> cell) \<Rightarrow> series \<Rightarrow> series \<Rightarrow> series \<Rightarrow> frame" where
  "daily_weather M date temp rain =
     (let keep = map (\<lambda>c. \<not> isna c) date;
          date = mask_series keep date;
          temp = mask_series keep temp;
          rain = mask_series keep rain;
          keys = group_keys date
      in [(''date'', map Day keys),
          (''temp'', map (\<lambda>k. mean_skipna M (group_rows k date temp)) keys),
          (''rain'', map (\<lambda>k. mean_skipna M (group_rows k date rain)) keys)])"


subsection \<open>main\<close>








section \<open>summarize_revenue_weather.py\<close>

text \<open>
  \<open>df["rain"] > 0\<close> is false on a missing cell and a \<open>TypeError\<close> on a text or a date;
  the group means need numeric revenue.
\<close>

definition is_numeric :: "cell \<Rightarrow> bool" where
  "is_numeric c = (case c of NA \<Rightarrow> True | IntVal i \<Rightarrow> True | Num r \<Rightarrow> True | _ \<Rightarrow> False)"

definition gt_zero :: "cell \<Rightarrow> bool" where
  "gt_zero c = (case num_of c of Some r \<Rightarrow> 0 < r | None \<Rightarrow> False)"

text \<open>
  \<open>rain_summary\<close>: the mean revenue per value of \<open>is_rain\<close>, the groups in ascending order
  of the value; then the index of the result is replaced by the two labels, which pandas
  refuses with a \<open>ValueError\<close> unless the result has exactly two entries. The mean of the
  revenues of a group that are present is the parameter \<open>M\<close>.
\<close>

definition rain_summary :: "(series \<Rightarrow> cell) \<Rightarrow> frame \<Rightarrow> error + (string \<times> cell) list" where
  "rain_summary M df =
     and_then (series_of (not_unique_error ''rain'') df ''rain'') (\<lambda>rain.
       if \<not> list_all is_numeric rain
       then Inl (TypeError ''> not supported between instances of str and int'')
       else
         let is_rain = map (\<lambda>c. if gt_zero c then 1 else (0 :: int)) rain;
             df = setitem df ''is_rain'' (map IntVal is_rain)
         in and_then (series_of (not_unique_error ''revenue'') df ''revenue'') (\<lambda>revenue.
              if \<not> list_all is_numeric revenue
              then Inl (TypeError ''agg function failed [how->mean,dtype->object]'')
              else
                let keys = sort (remdups is_rain);
                    summary =
                      map (\<lambda>k. mean_skipna M (map snd (filter (\<lambda>(g, v). g = k) (zip is_rain revenue))))
                        keys
                in if length summary \<noteq> 2
                   then Inl (ValueError
                          (''Length mismatch: Expected axis has '' @ str_nat (length summary) @
                           '' elements, new values have 2 elements''))
                   else Inr (zip [''No Rain'', ''Rain''] summary)))"

section \<open>Notions used to state the properties\<close>















section \<open>Basic facts\<close>

lemma update_fresh: "k \<notin> fst ` set d \<Longrightarrow> AList.update k v d = d @ [(k, v)]"
  by (induction d) auto

lemma foldl_update_distinct:
  "distinct (map fst (d @ items)) \<Longrightarrow>
   foldl (\<lambda>d (k, v). AList.update k v d) d items = d @ items"
proof (induction items arbitrary: d)
  case Nil
  then show ?case by simp
next
  case (Cons kv items)
  obtain k v where kv: "kv = (k, v)" by (cases kv)
  from Cons.prems have fresh: "k \<notin> fst ` set d" by (auto simp: kv)
  from Cons.prems have "distinct (map fst ((d @ [(k, v)]) @ items))" by (auto simp: kv)
  from Cons.IH [OF this] show ?case by (simp add: kv update_fresh [OF fresh])
qed

lemma dict_of_items_distinct: "distinct (map fst items) \<Longrightarrow> dict_of_items items = items"
  using foldl_update_distinct [of "[]" items] by (simp add: dict_of_items_def)

lemma set_unique: "set (unique xs) = set xs"
  by (simp add: unique_def)

lemma distinct_unique: "distinct (unique xs)"
  by (simp add: unique_def)

lemma sort_unique: "sort (unique xs) = sorted_list_of_set (set xs)"
  by (metis distinct_unique set_unique sorted_list_of_set.idem_if_sorted_distinct
      distinct_sort set_sort sorted_sort)

lemma map_fst_enumerate_items: "map fst (map (\<lambda>(i, val). (val, f i)) (enumerate n xs)) = xs"
  by (induction xs arbitrary: n) auto

lemma map_of_enumerate_items:
  "distinct xs \<Longrightarrow> i < length xs \<Longrightarrow>
   map_of (map (\<lambda>(i, val). (val, f i)) (enumerate n xs)) (xs ! i) = Some (f (n + i))"
proof (induction xs arbitrary: n i)
  case Nil
  then show ?case by simp
next
  case (Cons x xs)
  show ?case
  proof (cases i)
    case 0
    then show ?thesis by simp
  next
    case (Suc j)
    with Cons.prems have "xs ! j \<noteq> x" by auto
    with Cons.IH [of j "Suc n"] Cons.prems Suc show ?thesis by simp
  qed
qed

text \<open>In a sorted list without repetition, the rank of an element is its position.\<close>

lemma rank_sorted_distinct:
  fixes xs :: "'a::linorder list"
  assumes "sorted xs" "distinct xs" "i < length xs"
  shows "card {x \<in> set xs. x \<le> xs ! i} = i + 1"
proof -
  have "{x \<in> set xs. x \<le> xs ! i} = set (take (i + 1) xs)"
  proof (intro set_eqI iffI)
    fix x assume "x \<in> {x \<in> set xs. x \<le> xs ! i}"
    then obtain j where j: "j < length xs" "x = xs ! j" "xs ! j \<le> xs ! i"
      by (auto simp: in_set_conv_nth)
    have "j \<le> i"
    proof (rule ccontr)
      assume "\<not> j \<le> i"
      then have "i < j" by simp
      with assms j have "xs ! i \<le> xs ! j" "xs ! i \<noteq> xs ! j"
        by (auto simp: sorted_iff_nth_mono nth_eq_iff_index_eq)
      with j show False by simp
    qed
    with j assms show "x \<in> set (take (i + 1) xs)"
      by (auto simp: in_set_conv_nth intro!: exI [of _ j])
  next
    fix x assume "x \<in> set (take (i + 1) xs)"
    then obtain j where "j < i + 1" "j < length xs" "x = xs ! j"
      by (auto simp: in_set_conv_nth)
    with assms show "x \<in> {x \<in> set xs. x \<le> xs ! i}"
      by (auto simp: sorted_iff_nth_mono)
  qed
  moreover have "card (set (take (i + 1) xs)) = i + 1"
    using assms by (simp add: distinct_card)
  ultimately show ?thesis by simp
qed

lemma length_str_nat_pos: "0 < length (str_nat n)"
  by (induction n rule: str_nat.induct) (subst str_nat.simps, simp)

lemma set_str_nat: "set (str_nat n) \<subseteq> set ''0123456789''"
proof (induction n rule: str_nat.induct)
  case (1 n)
  have d: "digit_char k \<in> set ''0123456789''" if "k < 10" for k
    using that unfolding digit_char_def by (intro nth_mem) simp
  show ?case
  proof (cases "n < 10")
    case True
    then show ?thesis using d [of n] by (subst str_nat.simps) simp
  next
    case False
    have "n mod 10 < 10" by simp
    from d [OF this] 1 [OF False] False show ?thesis
      by (subst str_nat.simps) auto
  qed
qed

text \<open>On the digits of a number, \<open>zfill\<close> only pads: there is no sign to step over.\<close>

lemma zfill_str_nat:
  "zfill w (str_nat n) = replicate (w - length (str_nat n)) CHR ''0'' @ str_nat n"
proof (cases "str_nat n")
  case Nil
  with length_str_nat_pos [of n] show ?thesis by simp
next
  case (Cons c rest)
  with set_str_nat [of n] have "c \<in> set ''0123456789''" by auto
  then have "c \<noteq> CHR ''+''" "c \<noteq> CHR ''-''" by auto
  with Cons show ?thesis by (simp add: zfill_def)
qed

section \<open>The codebook\<close>

lemma set_dropna: "set (dropna s) = {c \<in> set s. c \<noteq> NA}"
  by (auto simp: dropna_def isna_def)

lemma finite_values: "finite (astype_str fmt ` {c \<in> set series. c \<noteq> NA})"
  by simp

text \<open>The codebook numbers the sorted distinct texts from 1.\<close>

lemma make_codebook_sorted:
  "make_codebook fmt series prefix =
     map (\<lambda>(i, val). (val, prefix @ zfill 4 (str_nat (i + 1))))
       (enumerate 0 (sorted_list_of_set (astype_str fmt ` {c \<in> set series. c \<noteq> NA})))"
proof -
  let ?xs = "sorted_list_of_set (astype_str fmt ` {c \<in> set series. c \<noteq> NA})"
  let ?items = "map (\<lambda>(i, val). (val, prefix @ zfill 4 (str_nat (i + 1)))) (enumerate 0 ?xs)"
  have "distinct (map fst ?items)"
    by (simp only: map_fst_enumerate_items) simp
  then have "dict_of_items ?items = ?items"
    by (rule dict_of_items_distinct)
  moreover have "sort (unique (map (astype_str fmt) (dropna series))) = ?xs"
    by (simp add: sort_unique set_dropna)
  ultimately show ?thesis
    by (simp add: make_codebook_def)
qed

lemma make_codebook_keys:
  "map fst (make_codebook fmt series prefix) =
     sorted_list_of_set (astype_str fmt ` {c \<in> set series. c \<noteq> NA})"
  unfolding make_codebook_sorted by (rule map_fst_enumerate_items)

lemma make_codebook_lookup:
  "map_of (make_codebook fmt series prefix) k =
     (if k \<in> astype_str fmt ` {c \<in> set series. c \<noteq> NA}
      then Some (prefix @ zfill 4
             (str_nat (card {x \<in> astype_str fmt ` {c \<in> set series. c \<noteq> NA}. x \<le> k})))
      else None)"
proof -
  define V where "V = astype_str fmt ` {c \<in> set series. c \<noteq> NA}"
  define xs where "xs = sorted_list_of_set V"
  have fin: "finite V" unfolding V_def by (rule finite_values)
  have xs: "sorted xs" "distinct xs" "set xs = V"
    using fin by (simp_all add: xs_def)
  have cb: "make_codebook fmt series prefix =
      map (\<lambda>(i, val). (val, prefix @ zfill 4 (str_nat (i + 1)))) (enumerate 0 xs)"
    unfolding xs_def V_def by (rule make_codebook_sorted)
  have "map_of (make_codebook fmt series prefix) k =
      (if k \<in> V then Some (prefix @ zfill 4 (str_nat (card {x \<in> V. x \<le> k}))) else None)"
  proof (cases "k \<in> V")
    case False
    have "map fst (make_codebook fmt series prefix) = xs"
      unfolding cb by (rule map_fst_enumerate_items)
    then have "fst ` set (make_codebook fmt series prefix) = V"
      using xs(3) by (metis set_map)
    with False show ?thesis by (simp add: map_of_eq_None_iff)
  next
    case True
    then obtain i where i: "i < length xs" "k = xs ! i"
      using xs(3) by (metis in_set_conv_nth)
    have "card {x \<in> V. x \<le> k} = i + 1"
      using rank_sorted_distinct [OF xs(1) xs(2) i(1)] i(2) xs(3) by simp
    moreover have "map_of (make_codebook fmt series prefix) k =
        Some (prefix @ zfill 4 (str_nat (i + 1)))"
      unfolding cb i(2) using map_of_enumerate_items [OF xs(2) i(1), of _ 0] by simp
    ultimately show ?thesis using True by simp
  qed
  then show ?thesis unfolding V_def .
qed

text \<open>
  C1. The codebook of a series and a prefix is the mapping from the distinct texts of the
  non-missing values (\<open>astype_str\<close>) to the prefix followed by the rank of the text, in
  ascending order of the texts and counted from 1, written in decimal and padded with
  zeros on the left to four digits. Its keys stand in ascending order, each once. It
  depends only on the set of values of the series, hence neither on their order nor on
  how often each occurs; the empty series gives the empty mapping; and the values
  Latte, Mocha, Latte, Chai with prefix MTI give Chai to MTI0001, Latte to MTI0002, Mocha
  to MTI0003.
\<close>

theorem make_codebook_spec:
  "(\<forall>k. map_of (make_codebook fmt series prefix) k =
      (if k \<in> astype_str fmt ` {c \<in> set series. c \<noteq> NA}
       then Some (prefix @
              replicate
                (4 - length (str_nat
                   (card {x \<in> astype_str fmt ` {c \<in> set series. c \<noteq> NA}. x \<le> k})))
                CHR ''0'' @
              str_nat (card {x \<in> astype_str fmt ` {c \<in> set series. c \<noteq> NA}. x \<le> k}))
       else None)) \<and>
   map fst (make_codebook fmt series prefix) =
     sorted_list_of_set (astype_str fmt ` {c \<in> set series. c \<noteq> NA}) \<and>
   (\<forall>series'. set series' = set series \<longrightarrow>
      make_codebook fmt series' prefix = make_codebook fmt series prefix) \<and>
   make_codebook fmt [] prefix = [] \<and>
   make_codebook fmt [Str ''Latte'', Str ''Mocha'', Str ''Latte'', Str ''Chai''] ''MTI'' =
     [(''Chai'', ''MTI0001''), (''Latte'', ''MTI0002''), (''Mocha'', ''MTI0003'')]"
proof (intro conjI allI impI)
  fix k
  show "map_of (make_codebook fmt series prefix) k =
      (if k \<in> astype_str fmt ` {c \<in> set series. c \<noteq> NA}
       then Some (prefix @
              replicate
                (4 - length (str_nat
                   (card {x \<in> astype_str fmt ` {c \<in> set series. c \<noteq> NA}. x \<le> k})))
                CHR ''0'' @
              str_nat (card {x \<in> astype_str fmt ` {c \<in> set series. c \<noteq> NA}. x \<le> k}))
       else None)"
    by (simp only: make_codebook_lookup zfill_str_nat)
next
  show "map fst (make_codebook fmt series prefix) =
     sorted_list_of_set (astype_str fmt ` {c \<in> set series. c \<noteq> NA})"
    by (rule make_codebook_keys)
next
  fix series'
  assume "set series' = set series"
  then show "make_codebook fmt series' prefix = make_codebook fmt series prefix"
    by (simp add: make_codebook_sorted)
next
  show "make_codebook fmt [] prefix = []"
    by (simp add: make_codebook_sorted)
next
  have "{c \<in> set [Str ''Latte'', Str ''Mocha'', Str ''Latte'', Str ''Chai'']. c \<noteq> NA}
      = {Str ''Chai'', Str ''Latte'', Str ''Mocha''}"
    by auto
  then have "astype_str fmt ` {c \<in> set [Str ''Latte'', Str ''Mocha'', Str ''Latte'', Str ''Chai'']. c \<noteq> NA}
      = {''Chai'', ''Latte'', ''Mocha''}"
    by (simp add: astype_str_def)
  moreover have "sorted_list_of_set {''Chai'', ''Latte'', ''Mocha''} = [''Chai'', ''Latte'', ''Mocha'']"
    by code_simp
  moreover have "map (\<lambda>(i, val). (val, ''MTI'' @ zfill 4 (str_nat (i + 1))))
        (enumerate 0 [''Chai'', ''Latte'', ''Mocha'']) =
     [(''Chai'', ''MTI0001''), (''Latte'', ''MTI0002''), (''Mocha'', ''MTI0003'')]"
    by code_simp
  ultimately show "make_codebook fmt [Str ''Latte'', Str ''Mocha'', Str ''Latte'', Str ''Chai''] ''MTI'' =
     [(''Chai'', ''MTI0001''), (''Latte'', ''MTI0002''), (''Mocha'', ''MTI0003'')]"
    by (simp only: make_codebook_sorted)
qed

theorem make_codebook_spec_witness:
  "set [Str ''Chai'', NA, Str ''Mocha'', Str ''Chai''] = set [Str ''Mocha'', Str ''Chai'', NA] \<and>
   make_codebook (\<lambda>c. ''?'') [Str ''Chai'', NA, Str ''Mocha'', Str ''Chai''] ''MTM'' =
     make_codebook (\<lambda>c. ''?'') [Str ''Mocha'', Str ''Chai'', NA] ''MTM'' \<and>
   map_of (make_codebook (\<lambda>c. ''?'') [Str ''Mocha'', Str ''Chai'', NA] ''MTM'') ''Mocha'' =
     Some ''MTM0002''"
proof -
  have same: "set [Str ''Chai'', NA, Str ''Mocha'', Str ''Chai''] = set [Str ''Mocha'', Str ''Chai'', NA]"
    by auto
  note spec = make_codebook_spec [of "\<lambda>c. ''?''" "[Str ''Mocha'', Str ''Chai'', NA]" "''MTM''"]
  from spec have "\<forall>series'. set series' = set [Str ''Mocha'', Str ''Chai'', NA] \<longrightarrow>
      make_codebook (\<lambda>c. ''?'') series' ''MTM'' =
      make_codebook (\<lambda>c. ''?'') [Str ''Mocha'', Str ''Chai'', NA] ''MTM''"
    by (elim conjE)
  with same have eq: "make_codebook (\<lambda>c. ''?'') [Str ''Chai'', NA, Str ''Mocha'', Str ''Chai''] ''MTM'' =
     make_codebook (\<lambda>c. ''?'') [Str ''Mocha'', Str ''Chai'', NA] ''MTM''"
    by blast
  have look: "map_of (make_codebook (\<lambda>c. ''?'') [Str ''Mocha'', Str ''Chai'', NA] ''MTM'') ''Mocha'' =
     Some ''MTM0002''"
    by code_simp
  from same eq look show ?thesis by blast
qed

section \<open>Frames with distinct labels\<close>

lemma and_then_Inr [simp]: "and_then (Inr x) f = f x"
  by (simp add: and_then_def)

lemma and_then_Inl [simp]: "and_then (Inl e) f = Inl e"
  by (simp add: and_then_def)

lemma and_then_eq_Inr:
  "and_then m f = Inr y \<longleftrightarrow> (\<exists>x. m = Inr x \<and> f x = Inr y)"
  by (cases m) simp_all

lemma getitem_distinct:
  "distinct (columns df) \<Longrightarrow>
   getitem df l = (case map_of df l of None \<Rightarrow> [] | Some s \<Rightarrow> [s])"
proof (induction df)
  case Nil
  then show ?case by (simp add: getitem_def)
next
  case (Cons c df)
  obtain n s where c: "c = (n, s)" by (cases c)
  from Cons.prems have d: "distinct (columns df)" and n: "n \<notin> set (columns df)"
    by (simp_all add: columns_def c)
  show ?case
  proof (cases "n = l")
    case True
    with n have "map_of df l = None" by (simp add: columns_def map_of_eq_None_iff)
    with Cons.IH [OF d] True show ?thesis
      by (simp add: getitem_def c)
  next
    case False
    with Cons.IH [OF d] show ?thesis by (simp add: getitem_def c)
  qed
qed

lemma series_of_distinct:
  "distinct (columns df) \<Longrightarrow>
   series_of err df l = (case map_of df l of None \<Rightarrow> Inl (KeyError l) | Some s \<Rightarrow> Inr s)"
  by (simp add: series_of_def getitem_distinct split: option.splits)

lemma in_columns_iff: "l \<in> set (columns df) \<longleftrightarrow> map_of df l \<noteq> None"
  by (simp add: columns_def map_of_eq_None_iff)

lemma columns_setitem:
  "columns (setitem df l s) = (if l \<in> set (columns df) then columns df else columns df @ [l])"
  by (auto simp: setitem_def columns_def split: prod.splits)

lemma map_of_overwrite_other:
  "k \<noteq> l \<Longrightarrow>
   map_of (map (\<lambda>(n, old). if n = l then (n, s) else (n, old)) df) k = map_of df k"
  by (induction df) auto

lemma map_of_overwrite_same:
  "map_of (map (\<lambda>(n, old). if n = l then (n, s) else (n, old)) df) l =
     (if l \<in> fst ` set df then Some s else None)"
  by (induction df) auto

lemma map_of_overwrite:
  "map_of (map (\<lambda>(n, old). if n = l then (n, s) else (n, old)) df) k =
     (if k = l then (if l \<in> fst ` set df then Some s else None) else map_of df k)"
  by (simp add: map_of_overwrite_other map_of_overwrite_same)

lemma map_of_setitem: "map_of (setitem df l s) = (map_of df)(l \<mapsto> s)"
proof (rule ext)
  fix k
  show "map_of (setitem df l s) k = ((map_of df)(l \<mapsto> s)) k"
  proof (cases "l \<in> set (columns df)")
    case False
    then have "map_of df l = None" by (simp add: in_columns_iff)
    with False show ?thesis
      by (simp add: setitem_def map_add_def split: option.splits)
  next
    case True
    then have "l \<in> fst ` set df" by (simp add: columns_def)
    with True show ?thesis by (simp add: setitem_def map_of_overwrite)
  qed
qed

lemma distinct_setitem: "distinct (columns df) \<Longrightarrow> distinct (columns (setitem df l s))"
  by (simp add: columns_setitem)

lemma columns_filter: "columns (filter (\<lambda>(n, s). p n) df) = filter p (columns df)"
  by (induction df) (auto simp: columns_def)

lemma map_of_filter_label:
  "map_of (filter (\<lambda>(n, s). p n) df) l = (if p l then map_of df l else None)"
  by (induction df) auto

lemma drop_columns_present:
  "set ls \<subseteq> set (columns df) \<Longrightarrow>
   drop_columns ls df = Inr (filter (\<lambda>(n, s). n \<notin> set ls) df)"
proof -
  assume "set ls \<subseteq> set (columns df)"
  then have "filter (\<lambda>l. l \<notin> set (columns df)) ls = []"
    by (auto simp: filter_empty_conv)
  then show ?thesis by (simp add: drop_columns_def)
qed

section \<open>The anonymization run\<close>

lemma drop_columns_eq_Inr:
  "drop_columns ls df = Inr df' \<Longrightarrow> df' = filter (\<lambda>(n, s). n \<notin> set ls) df"
  by (simp add: drop_columns_def split: list.splits)

lemma anonymize_column_columns:
  assumes "anonymize_column fmt (src, ident, p) (df, fs, n) = Inr (df', fs', n')"
  shows "set (columns df') \<subseteq> set (columns df) \<union> {ident}"
proof (cases "src \<in> set (columns df)")
  case False
  with assms show ?thesis by (auto simp: anonymize_column_def)
next
  case True
  with assms obtain col where
    "drop_columns [src]
       (setitem df ident (map_dict (make_codebook fmt col p) (map (astype_str fmt) col))) = Inr df'"
    by (auto simp: anonymize_column_def and_then_eq_Inr Let_def)
  from drop_columns_eq_Inr [OF this] show ?thesis
    by (auto simp: columns_filter columns_setitem split: if_splits)
qed

lemma anonymize_all_columns:
  "anonymize_all fmt cfgs (df, fs, n) = Inr (df', fs', n') \<Longrightarrow>
   set (columns df') \<subseteq> set (columns df) \<union> (\<lambda>(src, ident, p). ident) ` set cfgs"
proof (induction cfgs arbitrary: df fs n)
  case Nil
  then show ?case by simp
next
  case (Cons cfg cfgs)
  obtain src ident p where cfg: "cfg = (src, ident, p)" by (cases cfg)
  from Cons.prems obtain df1 fs1 n1 where
    step: "anonymize_column fmt (src, ident, p) (df, fs, n) = Inr (df1, fs1, n1)" and
    rest: "anonymize_all fmt cfgs (df1, fs1, n1) = Inr (df', fs', n')"
    by (auto simp: cfg and_then_eq_Inr)
  from anonymize_column_columns [OF step] Cons.IH [OF rest] show ?case
    by (auto simp: cfg)
qed

lemma pii_not_generated:
  "(\<lambda>(src, ident, p). ident) ` set SENSITIVE_CATEGORICALS \<inter> set pii_columns = {}"
  by (simp add: SENSITIVE_CATEGORICALS_def pii_columns_def)

lemma main_no_pii:
  assumes "data_cleansing_main fmt fs = Inr (fs', notices)"
  shows "\<exists>out. fs' clean_path = Some out \<and> set (columns out) \<inter> set pii_columns = {}"
proof -
  from assms obtain df where df: "fs raw_path = Some df"
    by (auto simp: data_cleansing_main_def split: option.splits)
  let ?drop = "filter (\<lambda>col. col \<in> set (columns df)) pii_columns"
  from assms df obtain df0 out fs1 where
    d0: "drop_columns ?drop df = Inr df0" and
    loop: "anonymize_all fmt SENSITIVE_CATEGORICALS (df0, fs, []) = Inr (out, fs1, notices)" and
    fs': "fs' = fs1(clean_path \<mapsto> out)"
    by (auto simp: data_cleansing_main_def and_then_eq_Inr Let_def)
  from drop_columns_eq_Inr [OF d0] have "set (columns df0) \<inter> set pii_columns = {}"
    by (auto simp: columns_filter)
  with anonymize_all_columns [OF loop] pii_not_generated
  have "set (columns out) \<inter> set pii_columns = {}" by blast
  with fs' show ?thesis by simp
qed

lemma anonymize_column_absent:
  "src \<notin> set (columns df) \<Longrightarrow>
   anonymize_column fmt (src, ident, p) (df, fs, n) =
     Inr (df, fs, n @ [CHR 0x0A # ''[Skip] Column not found for anonymization: '' @ src])"
  by (simp add: anonymize_column_def)

lemma anonymize_column_present:
  assumes "distinct (columns df)" "map_of df src = Some col"
  shows "anonymize_column fmt (src, ident, p) (df, fs, n) =
     Inr (filter (\<lambda>(l, s). l \<noteq> src)
            (setitem df ident (map_dict (make_codebook fmt col p) (map (astype_str fmt) col))),
          (if src = ''Item Name''
           then save_mapping (make_codebook fmt col p) item_mapping_path ''Item Name'' ident fs
           else if src = ''Item Modifiers''
           then save_mapping (make_codebook fmt col p) modifier_mapping_path ''Item Modifiers'' ident fs
           else save_mapping (make_codebook fmt col p)
                  (mapping_dir @ ''/'' @ replace_char CHR '' '' CHR ''_'' (lower src) @ ''_mapping.csv'')
                  src ident fs),
          n)"
proof -
  from assms(2) have src: "src \<in> set (columns df)" by (simp add: in_columns_iff)
  then have "set [src] \<subseteq> set (columns (setitem df ident s))" for s
    by (simp add: columns_setitem)
  from drop_columns_present [OF this] src assms show ?thesis
    by (simp add: anonymize_column_def series_of_distinct Let_def)
qed

lemma map_of_filter_neq:
  "map_of (filter (\<lambda>(l, s). l \<noteq> src) df) = (map_of df)(src := None)"
  using map_of_filter_label [of "\<lambda>l. l \<noteq> src" df] by (auto simp: fun_eq_iff)

lemma anonymize_column_step:
  assumes "distinct (columns df)"
  obtains df' fs' n' where
    "anonymize_column fmt (src, ident, p) (df, fs, n) = Inr (df', fs', n')"
    "distinct (columns df')"
    "map_of df src = None \<Longrightarrow>
       df' = df \<and> fs' = fs \<and>
       n' = n @ [CHR 0x0A # ''[Skip] Column not found for anonymization: '' @ src]"
    "\<And>col. map_of df src = Some col \<Longrightarrow>
       map_of df' =
         ((map_of df)(ident \<mapsto> map_dict (make_codebook fmt col p) (map (astype_str fmt) col)))
           (src := None) \<and>
       fs' =
         (if src = ''Item Name''
          then save_mapping (make_codebook fmt col p) item_mapping_path ''Item Name'' ident fs
          else if src = ''Item Modifiers''
          then save_mapping (make_codebook fmt col p) modifier_mapping_path ''Item Modifiers'' ident fs
          else save_mapping (make_codebook fmt col p)
                 (mapping_dir @ ''/'' @ replace_char CHR '' '' CHR ''_'' (lower src) @ ''_mapping.csv'')
                 src ident fs) \<and>
       n' = n"
proof (cases "map_of df src")
  case None
  then have "src \<notin> set (columns df)" by (simp add: in_columns_iff)
  from anonymize_column_absent [OF this] assms None that show ?thesis by simp
next
  case (Some col)
  let ?ids = "map_dict (make_codebook fmt col p) (map (astype_str fmt) col)"
  let ?df' = "filter (\<lambda>(l, s). l \<noteq> src) (setitem df ident ?ids)"
  have "distinct (columns ?df')"
    using assms by (simp add: columns_filter distinct_setitem)
  moreover have "map_of ?df' = ((map_of df)(ident \<mapsto> ?ids))(src := None)"
    by (simp add: map_of_filter_neq map_of_setitem)
  ultimately show ?thesis
    using anonymize_column_present [OF assms Some, of fmt ident p fs n] Some that by simp
qed

lemma paths_differ:
  "item_mapping_path \<noteq> modifier_mapping_path"
  "item_mapping_path \<noteq> clean_path"
  "modifier_mapping_path \<noteq> clean_path"
  by (simp_all add: item_mapping_path_def modifier_mapping_path_def clean_path_def mapping_dir_def)

lemma map_dict_nth:
  "length (map_dict d ks) = length ks"
  "i < length ks \<Longrightarrow> map_of d (ks ! i) = Some v \<Longrightarrow> map_dict d ks ! i = Str v"
  by (simp_all add: map_dict_def)

lemma make_codebook_total:
  assumes "c \<in> set col" "c \<noteq> NA"
  shows "\<exists>v. map_of (make_codebook fmt col p) (astype_str fmt c) = Some v"
proof -
  from assms have "astype_str fmt c \<in> astype_str fmt ` {c \<in> set col. c \<noteq> NA}" by blast
  then show ?thesis by (simp add: make_codebook_lookup)
qed


lemma anonymize_all_distinct:
  "distinct (columns df) \<Longrightarrow>
   \<exists>df' fs' n'. anonymize_all fmt cfgs (df, fs, n) = Inr (df', fs', n')"
proof (induction cfgs arbitrary: df fs n)
  case Nil
  show ?case by simp
next
  case (Cons cfg cfgs)
  obtain src ident p where cfg: "cfg = (src, ident, p)" by (cases cfg)
  show ?case
  proof (rule anonymize_column_step [OF Cons.prems, of fmt src ident p fs n])
    fix df1 fs1 n1
    assume step: "anonymize_column fmt (src, ident, p) (df, fs, n) = Inr (df1, fs1, n1)"
      and d1: "distinct (columns df1)"
    from Cons.IH [OF d1, of fs1 n1] obtain df' fs' n' where
      "anonymize_all fmt cfgs (df1, fs1, n1) = Inr (df', fs', n')" by (elim exE)
    with step have "anonymize_all fmt (cfg # cfgs) (df, fs, n) = Inr (df', fs', n')"
      by (simp add: cfg)
    then show ?thesis by (intro exI)
  qed
qed

lemma label_in_columns: "(n, s) \<in> set df \<Longrightarrow> n \<in> set (columns df)"
  unfolding columns_def set_map by (rule image_eqI [of _ fst "(n, s)"]) simp_all

lemma drop_present_pii:
  "drop_columns (filter (\<lambda>col. col \<in> set (columns df)) pii_columns) df =
     Inr (filter (\<lambda>(n, s). n \<notin> set pii_columns) df)"
proof -
  let ?drop = "filter (\<lambda>col. col \<in> set (columns df)) pii_columns"
  have sub: "set ?drop \<subseteq> set (columns df)" by (rule subsetI) simp
  have "filter (\<lambda>(n, s). n \<notin> set ?drop) df = filter (\<lambda>(n, s). n \<notin> set pii_columns) df"
  proof (rule filter_cong [OF refl])
    fix c assume c: "c \<in> set df"
    obtain n s where ns: "c = (n, s)" by (cases c)
    from c ns have "n \<in> set (columns df)" by (simp add: label_in_columns)
    then show "(case c of (n, s) \<Rightarrow> n \<notin> set ?drop) = (case c of (n, s) \<Rightarrow> n \<notin> set pii_columns)"
      by (simp add: ns)
  qed
  with drop_columns_present [OF sub] show ?thesis by simp
qed

lemma main_distinct_ok:
  assumes "fs raw_path = Some df" "distinct (columns df)"
  shows "\<exists>fs' notices. data_cleansing_main fmt fs = Inr (fs', notices)"
proof -
  let ?df0 = "filter (\<lambda>(n, s). n \<notin> set pii_columns) df"
  have "distinct (columns ?df0)"
    using assms(2) by (simp add: columns_filter)
  from anonymize_all_distinct [OF this, of fmt SENSITIVE_CATEGORICALS fs "[]"]
  obtain df' fs1 n' where "anonymize_all fmt SENSITIVE_CATEGORICALS (?df0, fs, []) = Inr (df', fs1, n')"
    by (elim exE)
  with assms(1) have "data_cleansing_main fmt fs = Inr (fs1(clean_path \<mapsto> df'), n')"
    by (simp add: data_cleansing_main_def drop_present_pii)
  then show ?thesis by (intro exI)
qed


text \<open>
  C6. A table read from a CSV file has pairwise distinct labels. For such an input table
  the run succeeds, and for every configured sensitive column: when the column is present
  in the input, the anonymized output no longer has it and has the generated ID column
  instead; the mapping file written for the column holds the codebook of the column, keys
  and IDs side by side; and in every row where the original value is not missing, the ID
  cell holds exactly the ID that the persisted codebook gives for the text of that value.
  When the column is absent from the input, the run still succeeds and the skip notice
  for the column is among the diagnostics.
\<close>

theorem anonymized_ids:
  assumes raw: "fs raw_path = Some df" and dist: "distinct (columns df)"
  shows "\<exists>fs' notices out.
     data_cleansing_main fmt fs = Inr (fs', notices) \<and> fs' clean_path = Some out \<and>
     (\<forall>(src, ident, prefix) \<in> set SENSITIVE_CATEGORICALS.
        (\<forall>col. getitem df src = [col] \<longrightarrow>
           src \<notin> set (columns out) \<and>
           fs' (if src = ''Item Name'' then item_mapping_path else modifier_mapping_path) =
             Some [(src, map (Str \<circ> fst) (make_codebook fmt col prefix)),
                   (ident, map (Str \<circ> snd) (make_codebook fmt col prefix))] \<and>
           (\<exists>ids. getitem out ident = [ids] \<and> length ids = length col \<and>
              (\<forall>i < length col. col ! i \<noteq> NA \<longrightarrow>
                 (\<exists>v. map_of (make_codebook fmt col prefix) (astype_str fmt (col ! i)) = Some v \<and>
                      ids ! i = Str v)))) \<and>
        (src \<notin> set (columns df) \<longrightarrow>
           (CHR 0x0A # ''[Skip] Column not found for anonymization: '' @ src) \<in> set notices))"
proof -
  let ?drop = "filter (\<lambda>col. col \<in> set (columns df)) pii_columns"
  define df0 where "df0 = filter (\<lambda>(n, s). n \<notin> set ?drop) df"
  have d0: "drop_columns ?drop df = Inr df0"
    unfolding df0_def by (rule drop_columns_present) auto
  have dist0: "distinct (columns df0)"
    using dist by (simp add: df0_def columns_filter)
  have m0: "map_of df0 l = (if l \<in> set pii_columns then None else map_of df l)" for l
    by (auto simp: df0_def map_of_filter_label in_columns_iff)
  have name0: "map_of df0 ''Item Name'' = map_of df ''Item Name''"
    and mods0: "map_of df0 ''Item Modifiers'' = map_of df ''Item Modifiers''"
    by (simp_all add: m0 pii_columns_def)
  obtain df1 fs1 n1 where
    s1: "anonymize_column fmt (''Item Name'', ''Item ID'', ''MTI'') (df0, fs, []) = Inr (df1, fs1, n1)"
    and dist1: "distinct (columns df1)"
    and abs1: "map_of df0 ''Item Name'' = None \<Longrightarrow>
       df1 = df0 \<and> fs1 = fs \<and>
       n1 = [] @ [CHR 0x0A # ''[Skip] Column not found for anonymization: '' @ ''Item Name'']"
    and pres1: "\<And>col. map_of df0 ''Item Name'' = Some col \<Longrightarrow>
       map_of df1 =
         ((map_of df0)(''Item ID'' \<mapsto> map_dict (make_codebook fmt col ''MTI'') (map (astype_str fmt) col)))
           (''Item Name'' := None) \<and>
       fs1 = save_mapping (make_codebook fmt col ''MTI'') item_mapping_path ''Item Name'' ''Item ID'' fs \<and>
       n1 = []"
    using anonymize_column_step [OF dist0, of fmt "''Item Name''" "''Item ID''" "''MTI''" fs "[]"]
    by (auto simp del: fun_upd_apply)
  obtain out fs2 n2 where
    s2: "anonymize_column fmt (''Item Modifiers'', ''Modifier ID'', ''MTM'') (df1, fs1, n1) = Inr (out, fs2, n2)"
    and dist2: "distinct (columns out)"
    and abs2: "map_of df1 ''Item Modifiers'' = None \<Longrightarrow>
       out = df1 \<and> fs2 = fs1 \<and>
       n2 = n1 @ [CHR 0x0A # ''[Skip] Column not found for anonymization: '' @ ''Item Modifiers'']"
    and pres2: "\<And>col. map_of df1 ''Item Modifiers'' = Some col \<Longrightarrow>
       map_of out =
         ((map_of df1)(''Modifier ID'' \<mapsto> map_dict (make_codebook fmt col ''MTM'') (map (astype_str fmt) col)))
           (''Item Modifiers'' := None) \<and>
       fs2 = save_mapping (make_codebook fmt col ''MTM'') modifier_mapping_path ''Item Modifiers'' ''Modifier ID'' fs1 \<and>
       n2 = n1"
    using anonymize_column_step [OF dist1, of fmt "''Item Modifiers''" "''Modifier ID''" "''MTM''" fs1 n1]
    by (auto simp del: fun_upd_apply)
  have mods1: "map_of df1 ''Item Modifiers'' = map_of df ''Item Modifiers''"
    using abs1 pres1 mods0 by (cases "map_of df0 ''Item Name''") auto
  have main: "data_cleansing_main fmt fs = Inr (fs2(clean_path \<mapsto> out), n2)"
    using raw d0 s1 s2 by (simp add: data_cleansing_main_def SENSITIVE_CATEGORICALS_def)
  have col_iff: "getitem df l = [col] \<longleftrightarrow> map_of df l = Some col" for l col
    using dist by (simp add: getitem_distinct split: option.splits)
  have ids_ok: "length (map_dict (make_codebook fmt col p) (map (astype_str fmt) col)) = length col \<and>
      (\<forall>i < length col. col ! i \<noteq> NA \<longrightarrow>
         (\<exists>v. map_of (make_codebook fmt col p) (astype_str fmt (col ! i)) = Some v \<and>
              map_dict (make_codebook fmt col p) (map (astype_str fmt) col) ! i = Str v))" for col p
  proof (intro conjI allI impI)
    show "length (map_dict (make_codebook fmt col p) (map (astype_str fmt) col)) = length col"
      by (simp add: map_dict_nth)
  next
    fix i assume i: "i < length col" "col ! i \<noteq> NA"
    then obtain v where v: "map_of (make_codebook fmt col p) (astype_str fmt (col ! i)) = Some v"
      using make_codebook_total [of "col ! i" col fmt p] by auto
    with i show "\<exists>v. map_of (make_codebook fmt col p) (astype_str fmt (col ! i)) = Some v \<and>
              map_dict (make_codebook fmt col p) (map (astype_str fmt) col) ! i = Str v"
      by (simp add: map_dict_def)
  qed
  have name_case: "''Item Name'' \<notin> set (columns out) \<and>
      (fs2(clean_path \<mapsto> out)) item_mapping_path =
         Some [(''Item Name'', map (Str \<circ> fst) (make_codebook fmt col ''MTI'')),
               (''Item ID'', map (Str \<circ> snd) (make_codebook fmt col ''MTI''))] \<and>
      getitem out ''Item ID'' = [map_dict (make_codebook fmt col ''MTI'') (map (astype_str fmt) col)]"
    if "map_of df ''Item Name'' = Some col" for col
  proof -
    from that name0 pres1 [of col] have
      m1: "map_of df1 =
         ((map_of df0)(''Item ID'' \<mapsto> map_dict (make_codebook fmt col ''MTI'') (map (astype_str fmt) col)))
           (''Item Name'' := None)"
      and f1: "fs1 = save_mapping (make_codebook fmt col ''MTI'') item_mapping_path ''Item Name'' ''Item ID'' fs"
      by simp_all
    have "map_of out ''Item Name'' = None \<and>
          map_of out ''Item ID'' = Some (map_dict (make_codebook fmt col ''MTI'') (map (astype_str fmt) col)) \<and>
          fs2 item_mapping_path = fs1 item_mapping_path"
    proof (cases "map_of df1 ''Item Modifiers''")
      case None
      from abs2 [OF None] m1 show ?thesis by simp
    next
      case (Some mcol)
      from pres2 [OF Some] m1 show ?thesis
        by (simp add: save_mapping_def paths_differ)
    qed
    then show ?thesis
      using dist2 f1
      by (simp add: in_columns_iff getitem_distinct save_mapping_def mapping_df_def paths_differ)
  qed
  have mods_case: "''Item Modifiers'' \<notin> set (columns out) \<and>
      (fs2(clean_path \<mapsto> out)) modifier_mapping_path =
         Some [(''Item Modifiers'', map (Str \<circ> fst) (make_codebook fmt col ''MTM'')),
               (''Modifier ID'', map (Str \<circ> snd) (make_codebook fmt col ''MTM''))] \<and>
      getitem out ''Modifier ID'' = [map_dict (make_codebook fmt col ''MTM'') (map (astype_str fmt) col)]"
    if "map_of df ''Item Modifiers'' = Some col" for col
  proof -
    from that mods1 have "map_of df1 ''Item Modifiers'' = Some col" by simp
    from pres2 [OF this] show ?thesis
      using dist2
      by (simp add: in_columns_iff getitem_distinct save_mapping_def mapping_df_def paths_differ)
  qed
  have name_skip: "(CHR 0x0A # ''[Skip] Column not found for anonymization: '' @ ''Item Name'') \<in> set n2"
    if "''Item Name'' \<notin> set (columns df)"
  proof -
    from that name0 have "map_of df0 ''Item Name'' = None" by (simp add: in_columns_iff)
    from abs1 [OF this] have "(CHR 0x0A # ''[Skip] Column not found for anonymization: '' @ ''Item Name'') \<in> set n1"
      by simp
    moreover have "set n1 \<subseteq> set n2"
      using abs2 pres2 by (cases "map_of df1 ''Item Modifiers''") auto
    ultimately show ?thesis by blast
  qed
  have mods_skip: "(CHR 0x0A # ''[Skip] Column not found for anonymization: '' @ ''Item Modifiers'') \<in> set n2"
    if "''Item Modifiers'' \<notin> set (columns df)"
  proof -
    from that mods1 have "map_of df1 ''Item Modifiers'' = None" by (simp add: in_columns_iff)
    from abs2 [OF this] show ?thesis by simp
  qed
  show ?thesis
  proof (intro exI conjI)
    show "data_cleansing_main fmt fs = Inr (fs2(clean_path \<mapsto> out), n2)" by (rule main)
    show "(fs2(clean_path \<mapsto> out)) clean_path = Some out" by simp
    show "\<forall>(src, ident, prefix) \<in> set SENSITIVE_CATEGORICALS.
        (\<forall>col. getitem df src = [col] \<longrightarrow>
           src \<notin> set (columns out) \<and>
           (fs2(clean_path \<mapsto> out)) (if src = ''Item Name'' then item_mapping_path else modifier_mapping_path) =
             Some [(src, map (Str \<circ> fst) (make_codebook fmt col prefix)),
                   (ident, map (Str \<circ> snd) (make_codebook fmt col prefix))] \<and>
           (\<exists>ids. getitem out ident = [ids] \<and> length ids = length col \<and>
              (\<forall>i < length col. col ! i \<noteq> NA \<longrightarrow>
                 (\<exists>v. map_of (make_codebook fmt col prefix) (astype_str fmt (col ! i)) = Some v \<and>
                      ids ! i = Str v)))) \<and>
        (src \<notin> set (columns df) \<longrightarrow>
           (CHR 0x0A # ''[Skip] Column not found for anonymization: '' @ src) \<in> set n2)"
      unfolding SENSITIVE_CATEGORICALS_def
      using name_case mods_case name_skip mods_skip ids_ok
      by (simp add: col_iff del: fun_upd_apply)
  qed
qed

theorem anonymized_ids_witness:
  "((\<lambda>p. None)(raw_path \<mapsto>
       [(''Item Name'', [Str ''Mocha'', NA, Str ''Chai'']),
        (''Order Total'', [Num 5, Num 4, Num 6])])) raw_path =
     Some [(''Item Name'', [Str ''Mocha'', NA, Str ''Chai'']),
        (''Order Total'', [Num 5, Num 4, Num 6])] \<and>
   distinct (columns [(''Item Name'', [Str ''Mocha'', NA, Str ''Chai'']),
        (''Order Total'', [Num 5, Num 4, Num 6])]) \<and>
   getitem [(''Item Name'', [Str ''Mocha'', NA, Str ''Chai'']),
        (''Order Total'', [Num 5, Num 4, Num 6])] ''Item Name'' = [[Str ''Mocha'', NA, Str ''Chai'']] \<and>
   ''Item Modifiers'' \<notin> set (columns [(''Item Name'', [Str ''Mocha'', NA, Str ''Chai'']),
        (''Order Total'', [Num 5, Num 4, Num 6])]) \<and>
   (\<exists>fs' notices out.
      data_cleansing_main (\<lambda>c. ''?'')
        ((\<lambda>p. None)(raw_path \<mapsto>
          [(''Item Name'', [Str ''Mocha'', NA, Str ''Chai'']),
           (''Order Total'', [Num 5, Num 4, Num 6])])) = Inr (fs', notices) \<and>
      fs' clean_path = Some out \<and>
      ''Item Name'' \<notin> set (columns out) \<and>
      (\<exists>ids. getitem out ''Item ID'' = [ids] \<and> ids ! 0 = Str ''MTI0002'' \<and> ids ! 2 = Str ''MTI0001'') \<and>
      (CHR 0x0A # ''[Skip] Column not found for anonymization: Item Modifiers'') \<in> set notices)"
proof -
  let ?col = "[Str ''Mocha'', NA, Str ''Chai'']"
  let ?df = "[(''Item Name'', ?col), (''Order Total'', [Num 5, Num 4, Num 6])]"
  let ?fs = "(\<lambda>p. None)(raw_path \<mapsto> ?df)"
  let ?skip = "CHR 0x0A # ''[Skip] Column not found for anonymization: Item Modifiers''"
  have h1: "?fs raw_path = Some ?df" by simp
  have h2: "distinct (columns ?df)" by (simp add: columns_def)
  have h3: "getitem ?df ''Item Name'' = [?col]" by (simp add: getitem_def)
  have h4: "''Item Modifiers'' \<notin> set (columns ?df)" by (simp add: columns_def)
  have cb: "make_codebook (\<lambda>c. ''?'') ?col ''MTI'' = [(''Chai'', ''MTI0001''), (''Mocha'', ''MTI0002'')]"
    by code_simp
  from anonymized_ids [where fs = ?fs and df = ?df and fmt = "\<lambda>c. ''?''", OF h1 h2]
  obtain fs' notices out where
    m: "data_cleansing_main (\<lambda>c. ''?'') ?fs = Inr (fs', notices)" "fs' clean_path = Some out"
    and all: "\<forall>(src, ident, prefix) \<in> set SENSITIVE_CATEGORICALS.
        (\<forall>col. getitem ?df src = [col] \<longrightarrow>
           src \<notin> set (columns out) \<and>
           fs' (if src = ''Item Name'' then item_mapping_path else modifier_mapping_path) =
             Some [(src, map (Str \<circ> fst) (make_codebook (\<lambda>c. ''?'') col prefix)),
                   (ident, map (Str \<circ> snd) (make_codebook (\<lambda>c. ''?'') col prefix))] \<and>
           (\<exists>ids. getitem out ident = [ids] \<and> length ids = length col \<and>
              (\<forall>i < length col. col ! i \<noteq> NA \<longrightarrow>
                 (\<exists>v. map_of (make_codebook (\<lambda>c. ''?'') col prefix) (astype_str (\<lambda>c. ''?'') (col ! i)) = Some v \<and>
                      ids ! i = Str v)))) \<and>
        (src \<notin> set (columns ?df) \<longrightarrow>
           (CHR 0x0A # ''[Skip] Column not found for anonymization: '' @ src) \<in> set notices)"
    by (elim exE conjE)
  have in1: "(''Item Name'', ''Item ID'', ''MTI'') \<in> set SENSITIVE_CATEGORICALS"
    and in2: "(''Item Modifiers'', ''Modifier ID'', ''MTM'') \<in> set SENSITIVE_CATEGORICALS"
    by (simp_all add: SENSITIVE_CATEGORICALS_def)
  note a1 = bspec [OF all in1, unfolded prod.case]
  note c1 = conjunct1 [OF a1, rule_format, OF h3]
  from c1 have gone: "''Item Name'' \<notin> set (columns out)" by (elim conjE)
  from c1 have "\<exists>ids. getitem out ''Item ID'' = [ids] \<and> length ids = length ?col \<and>
          (\<forall>i < length ?col. ?col ! i \<noteq> NA \<longrightarrow>
             (\<exists>v. map_of (make_codebook (\<lambda>c. ''?'') ?col ''MTI'') (astype_str (\<lambda>c. ''?'') (?col ! i)) = Some v \<and>
                  ids ! i = Str v))"
    by (elim conjE)
  then obtain ids where
    ids: "getitem out ''Item ID'' = [ids]" and
    rows: "\<forall>i < length ?col. ?col ! i \<noteq> NA \<longrightarrow>
                 (\<exists>v. map_of (make_codebook (\<lambda>c. ''?'') ?col ''MTI'') (astype_str (\<lambda>c. ''?'') (?col ! i)) = Some v \<and>
                      ids ! i = Str v)"
    by (elim exE conjE)
  from rows [rule_format, of 0] have r0: "ids ! 0 = Str ''MTI0002''"
    by (simp add: cb astype_str_def)
  from rows [rule_format, of 2] have r2: "ids ! 2 = Str ''MTI0001''"
    by (simp add: cb astype_str_def)
  note a2 = bspec [OF all in2, unfolded prod.case]
  from conjunct2 [OF a2, rule_format, OF h4] have skip: "?skip \<in> set notices" by simp
  from ids r0 r2 have ex_ids:
    "\<exists>ids. getitem out ''Item ID'' = [ids] \<and> ids ! 0 = Str ''MTI0002'' \<and> ids ! 2 = Str ''MTI0001''"
    by (intro exI [of _ ids] conjI)
  have "\<exists>fs' notices out.
      data_cleansing_main (\<lambda>c. ''?'') ?fs = Inr (fs', notices) \<and>
      fs' clean_path = Some out \<and>
      ''Item Name'' \<notin> set (columns out) \<and>
      (\<exists>ids. getitem out ''Item ID'' = [ids] \<and> ids ! 0 = Str ''MTI0002'' \<and> ids ! 2 = Str ''MTI0001'') \<and>
      ?skip \<in> set notices"
    by (rule exI [of _ fs'], rule exI [of _ notices], rule exI [of _ out])
       (intro conjI m gone ex_ids skip)
  with h1 h2 h3 h4 show ?thesis by (intro conjI)
qed

text \<open>
  C7. Whenever the run succeeds, the anonymized output written to \<open>clean_path\<close> has none of
  the fixed PII labels among its columns. Dropping the PII columns never fails: only the
  listed labels that are present are handed to \<open>drop\<close>, which then removes exactly the
  columns with a PII label; and for every input table with distinct labels, whichever PII
  columns it has or lacks, the run succeeds.
\<close>

theorem pii_removed:
  "(\<forall>fs' notices. data_cleansing_main fmt fs = Inr (fs', notices) \<longrightarrow>
      (\<exists>out. fs' clean_path = Some out \<and> set (columns out) \<inter> set pii_columns = {})) \<and>
   (\<forall>df. drop_columns (filter (\<lambda>col. col \<in> set (columns df)) pii_columns) df =
      Inr (filter (\<lambda>(n, s). n \<notin> set pii_columns) df)) \<and>
   (\<forall>df. fs raw_path = Some df \<and> distinct (columns df) \<longrightarrow>
      (\<exists>fs' notices out. data_cleansing_main fmt fs = Inr (fs', notices) \<and>
         fs' clean_path = Some out \<and> set (columns out) \<inter> set pii_columns = {}))"
proof (intro conjI allI impI)
  fix fs' notices
  assume "data_cleansing_main fmt fs = Inr (fs', notices)"
  then show "\<exists>out. fs' clean_path = Some out \<and> set (columns out) \<inter> set pii_columns = {}"
    by (rule main_no_pii)
next
  fix df
  show "drop_columns (filter (\<lambda>col. col \<in> set (columns df)) pii_columns) df =
      Inr (filter (\<lambda>(n, s). n \<notin> set pii_columns) df)"
    by (rule drop_present_pii)
next
  fix df
  assume "fs raw_path = Some df \<and> distinct (columns df)"
  then have "fs raw_path = Some df" "distinct (columns df)" by simp_all
  from main_distinct_ok [where fs = fs and df = df and fmt = fmt, OF this]
  obtain fs' notices where m: "data_cleansing_main fmt fs = Inr (fs', notices)"
    by (elim exE)
  from main_no_pii [OF m] obtain out where
    "fs' clean_path = Some out \<and> set (columns out) \<inter> set pii_columns = {}"
    by (elim exE)
  with m show "\<exists>fs' notices out. data_cleansing_main fmt fs = Inr (fs', notices) \<and>
         fs' clean_path = Some out \<and> set (columns out) \<inter> set pii_columns = {}"
    by (intro exI [of _ fs'] exI [of _ notices] exI [of _ out] conjI) simp_all
qed

theorem pii_removed_witness:
  "((\<lambda>p. None)(raw_path \<mapsto>
       [(''Order Date'', [Str ''2025-10-01'', Str ''2025-10-02'']),
        (''Recipient Email'', [Str ''a@example.org'', NA]),
        (''Item Name'', [Str ''Mocha'', Str ''Chai'']),
        (''Order Total'', [Num 5, Num 4])])) raw_path =
     Some [(''Order Date'', [Str ''2025-10-01'', Str ''2025-10-02'']),
        (''Recipient Email'', [Str ''a@example.org'', NA]),
        (''Item Name'', [Str ''Mocha'', Str ''Chai'']),
        (''Order Total'', [Num 5, Num 4])] \<and>
   distinct (columns [(''Order Date'', [Str ''2025-10-01'', Str ''2025-10-02'']),
        (''Recipient Email'', [Str ''a@example.org'', NA]),
        (''Item Name'', [Str ''Mocha'', Str ''Chai'']),
        (''Order Total'', [Num 5, Num 4])]) \<and>
   (\<exists>fs' notices out.
      data_cleansing_main (\<lambda>c. ''?'')
        ((\<lambda>p. None)(raw_path \<mapsto>
          [(''Order Date'', [Str ''2025-10-01'', Str ''2025-10-02'']),
           (''Recipient Email'', [Str ''a@example.org'', NA]),
           (''Item Name'', [Str ''Mocha'', Str ''Chai'']),
           (''Order Total'', [Num 5, Num 4])])) = Inr (fs', notices) \<and>
      fs' clean_path = Some out \<and> set (columns out) \<inter> set pii_columns = {})"
proof -
  let ?df = "[(''Order Date'', [Str ''2025-10-01'', Str ''2025-10-02'']),
        (''Recipient Email'', [Str ''a@example.org'', NA]),
        (''Item Name'', [Str ''Mocha'', Str ''Chai'']),
        (''Order Total'', [Num 5, Num 4])]"
  let ?fs = "(\<lambda>p. None)(raw_path \<mapsto> ?df)"
  have h1: "?fs raw_path = Some ?df" by simp
  have h2: "distinct (columns ?df)" by (simp add: columns_def)
  from pii_removed [of "\<lambda>c. ''?''" ?fs] have
    "\<forall>df. ?fs raw_path = Some df \<and> distinct (columns df) \<longrightarrow>
      (\<exists>fs' notices out. data_cleansing_main (\<lambda>c. ''?'') ?fs = Inr (fs', notices) \<and>
         fs' clean_path = Some out \<and> set (columns out) \<inter> set pii_columns = {})"
    by (elim conjE)
  from this [rule_format, of ?df, OF conjI [OF h1 h2]]
  have "\<exists>fs' notices out. data_cleansing_main (\<lambda>c. ''?'') ?fs = Inr (fs', notices) \<and>
         fs' clean_path = Some out \<and> set (columns out) \<inter> set pii_columns = {}" .
  with h1 h2 show ?thesis by (intro conjI)
qed

section \<open>Weather column names that differ in case only\<close>

text \<open>
  C8. \<open>lower_cols\<close> keeps, for each lower-cased name, the last column with that name. When
  the input has the columns \<open>date\<close>, \<open>temp\<close>, \<open>Temp\<close>, \<open>rain\<close>, the alias \<open>temp\<close> resolves to
  \<open>Temp\<close>, which is renamed to \<open>temp\<close> beside the column that already has this label, and
  the selection of \<open>date\<close>, \<open>temp\<close>, \<open>rain\<close> returns four columns, two of them labelled
  \<open>temp\<close>: no error is raised and the result does not have exactly the three columns.
\<close>

theorem normalize_weather_columns_case_collision:
  "normalize_weather_columns
     [(''date'', [Str ''2025-10-01'']), (''temp'', [Num 70]), (''Temp'', [Num 21]),
      (''rain'', [Num 0])] =
   Inr [(''date'', [Str ''2025-10-01'']), (''temp'', [Num 70]), (''temp'', [Num 21]),
        (''rain'', [Num 0])]"
  by code_simp

section \<open>The rain summary of a table with a single group\<close>

text \<open>
  C9. On a merged table in which no day has rain above zero (here one dry day and one day
  without weather) the grouping yields the single group of \<open>is_rain = 0\<close>, and giving the
  result the two labels fails: \<open>rain_summary\<close> raises a \<open>ValueError\<close> instead of returning
  the mean revenue of two groups, whatever the mean of a group is.
\<close>

theorem rain_summary_single_group:
  "rain_summary M
     [(''date'', [Day (2025, 10, 1), Day (2025, 10, 2)]),
      (''revenue'', [Num 120, Num 95]),
      (''weekday'', [IntVal 2, IntVal 3]),
      (''weekday_name'', [Str ''Wednesday'', Str ''Thursday'']),
      (''temp'', [Num 70, NA]),
      (''rain'', [Num 0, NA])] =
   Inl (ValueError ''Length mismatch: Expected axis has 1 elements, new values have 2 elements'')"
  by code_simp

section \<open>Loading the daily weather file\<close>

lemma load_weather_normalized:
  assumes "fs path = Some weather"
    and "normalize_weather_columns weather = Inr [(''date'', d), (''temp'', t), (''rain'', r)]"
  shows "load_weather P Q fs path =
     (if NA \<in> set (map (dt_date \<circ> to_datetime P) d)
      then Inl (ValueError ''Weather file has invalid dates in the date column.'')
      else if \<not> distinct (map (dt_date \<circ> to_datetime P) d)
      then Inl (ValueError ''Weather file has duplicate dates; expected 1 row per day.'')
      else Inr [(''date'', map (dt_date \<circ> to_datetime P) d),
                (''temp'', map (to_numeric Q) t),
                (''rain'', map (to_numeric Q) r)])"
proof -
  have "True \<in> set (map isna xs) \<longleftrightarrow> NA \<in> set xs" for xs
    by (auto simp: isna_def)
  then show ?thesis
    using assms
    by (simp add: load_weather_def assign_converted_def series_of_def getitem_def setitem_def
        columns_def)
qed

lemma date_of_parse: "dt_date (to_datetime P c) = (case P c of None \<Rightarrow> NA | Some (dy, tm) \<Rightarrow> Day dy)"
  by (simp add: dt_date_def to_datetime_def split: option.splits)

lemma parsed_date_NA: "(dt_date \<circ> to_datetime P) c = NA \<longleftrightarrow> P c = None"
  by (simp add: date_of_parse split: option.splits)

lemma NA_in_dates: "NA \<in> set (map (dt_date \<circ> to_datetime P) d) \<longleftrightarrow> (\<exists>c \<in> set d. P c = None)"
proof -
  have "NA \<in> set (map (dt_date \<circ> to_datetime P) d) \<longleftrightarrow> (\<exists>c \<in> set d. (dt_date \<circ> to_datetime P) c = NA)"
    by (simp only: set_map image_iff) metis
  then show ?thesis by (simp only: parsed_date_NA)
qed

lemma distinct_dates:
  "distinct (map (dt_date \<circ> to_datetime P) d) \<longleftrightarrow> distinct (map (map_option fst \<circ> P) d)"
proof -
  define day_cell where "day_cell = (\<lambda>x. case x of None \<Rightarrow> NA | Some dy \<Rightarrow> Day dy)"
  have "inj day_cell"
    by (rule injI) (auto simp: day_cell_def split: option.splits)
  then have inj: "inj_on day_cell A" for A
    by (rule inj_on_subset) simp
  have "map (dt_date \<circ> to_datetime P) d = map day_cell (map (map_option fst \<circ> P) d)"
    by (simp add: date_of_parse day_cell_def split: option.splits)
  then show ?thesis
    by (simp only: distinct_map [of day_cell] inj simp_thms)
qed

lemma dates_parsed:
  "map P d = map Some ts \<Longrightarrow> map (dt_date \<circ> to_datetime P) d = map (Day \<circ> fst) ts"
proof (induction d arbitrary: ts)
  case Nil
  then show ?case by simp
next
  case (Cons c d)
  then obtain x xs where ts: "ts = x # xs" "P c = Some x" "map P d = map Some xs"
    by (cases ts) auto
  with Cons.IH [OF ts(3)] show ?case
    by (simp add: date_of_parse split: prod.splits)
qed

lemma assign_converted_Inr:
  "assign_converted err f l df = Inr df' \<Longrightarrow>
   \<exists>s. getitem df l = [s] \<and> df' = setitem df l (map f s)"
  by (auto simp: assign_converted_def series_of_def and_then_def split: list.splits sum.splits)

lemma getitem_overwrite_other:
  "l' \<noteq> l \<Longrightarrow>
   getitem (map (\<lambda>(n, old). if n = l then (n, s) else (n, old)) df) l' = getitem df l'"
proof (induction df)
  case Nil
  show ?case by simp
next
  case (Cons c df)
  obtain n old where c: "c = (n, old)" by (cases c)
  from Cons have IH: "getitem (map (\<lambda>(n, old). if n = l then (n, s) else (n, old)) df) l' = getitem df l'"
    by simp
  show ?case
  proof (cases "n = l")
    case True
    with Cons.prems IH show ?thesis by (simp add: getitem_def c)
  next
    case False
    with IH show ?thesis by (simp add: getitem_def c)
  qed
qed

lemma getitem_setitem_other: "l' \<noteq> l \<Longrightarrow> getitem (setitem df l s) l' = getitem df l'"
  by (simp add: setitem_def getitem_overwrite_other) (simp add: getitem_def)

lemma filter_label_single:
  assumes "getitem df l = [s]"
  shows "filter (\<lambda>(n, s). n = l) df = [(l, s)]"
proof -
  let ?xs = "filter (\<lambda>(n, s). n = l) df"
  from assms have "map snd ?xs = [s]" by (simp add: getitem_def)
  then obtain c where xs: "?xs = [c]" and c: "snd c = s" by (cases ?xs) auto
  have "c \<in> set ?xs" by (simp add: xs)
  then have "fst c = l" by (auto simp del: xs)
  with c have "c = (l, s)" by (cases c) simp
  with xs show ?thesis by simp
qed

lemma getitem_append: "getitem (a @ b) l = getitem a l @ getitem b l"
  by (simp add: getitem_def)

lemma getitem_filter_label:
  "getitem (filter (\<lambda>(n, s). n = a) df) l = (if l = a then getitem df a else [])"
  by (induction df) (auto simp: getitem_def)

lemma select_columns_Inr:
  "select_columns ls df = Inr w \<Longrightarrow> w = concat (map (\<lambda>l. filter (\<lambda>(n, s). n = l) df) ls)"
  by (simp add: select_columns_def split: list.splits)

lemma normalize_Inr:
  "normalize_weather_columns df = Inr w \<Longrightarrow>
   \<exists>df'. w = filter (\<lambda>(n, s). n = ''date'') df' @ filter (\<lambda>(n, s). n = ''temp'') df' @
              filter (\<lambda>(n, s). n = ''rain'') df'"
proof -
  assume a: "normalize_weather_columns df = Inr w"
  let ?df' = "rename_columns (resolve_aliases (lower_cols df)) df"
  from a have "select_columns [''date'', ''temp'', ''rain''] ?df' = Inr w"
    by (simp add: normalize_weather_columns_def Let_def split: if_splits)
  from select_columns_Inr [OF this] show ?thesis by (intro exI [of _ ?df']) simp
qed

lemma load_weather_success_shape:
  assumes "load_weather P Q fs path = Inr w"
  shows "\<exists>weather d t r. fs path = Some weather \<and>
     normalize_weather_columns weather = Inr [(''date'', d), (''temp'', t), (''rain'', r)]"
proof -
  from assms obtain weather where exists: "fs path = Some weather"
    by (auto simp: load_weather_def split: option.splits)
  from assms exists obtain w0 w1 w2 w3 where
    n: "normalize_weather_columns weather = Inr w0" and
    a1: "assign_converted assemble_error (dt_date \<circ> to_datetime P) ''date'' w0 = Inr w1" and
    a2: "assign_converted not_1d_error (to_numeric Q) ''temp'' w1 = Inr w2" and
    a3: "assign_converted not_1d_error (to_numeric Q) ''rain'' w2 = Inr w3"
    by (auto simp: load_weather_def and_then_def split: sum.splits)
  from assign_converted_Inr [OF a1] obtain d where
    d: "getitem w0 ''date'' = [d]" and w1: "w1 = setitem w0 ''date'' (map (dt_date \<circ> to_datetime P) d)"
    by blast
  from assign_converted_Inr [OF a2] obtain t' where
    t': "getitem w1 ''temp'' = [t']" and w2: "w2 = setitem w1 ''temp'' (map (to_numeric Q) t')"
    by blast
  from assign_converted_Inr [OF a3] obtain r' where
    r': "getitem w2 ''rain'' = [r']"
    by blast
  from t' have t: "getitem w0 ''temp'' = [t']"
    by (simp add: w1 getitem_setitem_other)
  from r' have r: "getitem w0 ''rain'' = [r']"
    by (simp add: w2 w1 getitem_setitem_other)
  from normalize_Inr [OF n] obtain df' where
    w0: "w0 = filter (\<lambda>(n, s). n = ''date'') df' @ filter (\<lambda>(n, s). n = ''temp'') df' @
              filter (\<lambda>(n, s). n = ''rain'') df'"
    by blast
  from d have "getitem df' ''date'' = [d]"
    by (simp add: w0 getitem_append getitem_filter_label)
  moreover from t have "getitem df' ''temp'' = [t']"
    by (simp add: w0 getitem_append getitem_filter_label)
  moreover from r have "getitem df' ''rain'' = [r']"
    by (simp add: w0 getitem_append getitem_filter_label)
  ultimately have "w0 = [(''date'', d), (''temp'', t'), (''rain'', r')]"
    by (simp add: w0 filter_label_single)
  with n exists show ?thesis by blast
qed

lemma no_NA_parsed:
  "NA \<notin> set (map (dt_date \<circ> to_datetime P) d) \<Longrightarrow> \<exists>ts. map P d = map Some ts"
proof (induction d)
  case Nil
  show ?case by simp
next
  case (Cons c d)
  from Cons.prems have "dt_date (to_datetime P c) \<noteq> NA" by auto
  then have "P c \<noteq> None" by (cases "P c") (simp_all add: date_of_parse)
  then obtain x where x: "P c = Some x" by (cases "P c") simp_all
  from Cons obtain ts where "map P d = map Some ts" by auto
  with x have "map P (c # d) = map Some (x # ts)" by simp
  then show ?case by (rule exI)
qed

text \<open>
  C4. A load of the daily weather file that succeeds returns the three columns \<open>date\<close>,
  \<open>temp\<close>, \<open>rain\<close>, the date column holding calendar dates that are pairwise distinct: one
  row per date, never two rows with the same date. When the column names resolve to the
  columns \<open>d\<close>, \<open>t\<close>, \<open>r\<close>: if some date of \<open>d\<close> fails to parse, the load raises the
  \<open>ValueError\<close> for invalid dates; if all dates parse and two rows have the same calendar
  date (the time of day discarded), it raises the \<open>ValueError\<close> for duplicate dates.
\<close>

theorem load_weather_validates:
  "(load_weather P Q fs path = Inr w \<longrightarrow>
      (\<exists>ds t r. w = [(''date'', map Day ds), (''temp'', t), (''rain'', r)] \<and> distinct ds)) \<and>
   (fs path = Some weather \<and>
    normalize_weather_columns weather = Inr [(''date'', d), (''temp'', t), (''rain'', r)] \<longrightarrow>
      ((\<exists>c \<in> set d. P c = None) \<longrightarrow>
         load_weather P Q fs path =
           Inl (ValueError ''Weather file has invalid dates in the date column.'')) \<and>
      ((\<forall>c \<in> set d. P c \<noteq> None) \<and> \<not> distinct (map (map_option fst \<circ> P) d) \<longrightarrow>
         load_weather P Q fs path =
           Inl (ValueError ''Weather file has duplicate dates; expected 1 row per day.'')))"
proof (intro conjI impI)
  assume ok: "load_weather P Q fs path = Inr w"
  from load_weather_success_shape [OF ok] obtain weather' d' t' r' where
    f: "fs path = Some weather'" and
    n: "normalize_weather_columns weather' = Inr [(''date'', d'), (''temp'', t'), (''rain'', r')]"
    by blast
  note eq = load_weather_normalized [where fs = fs and path = path and P = P and Q = Q, OF f n]
  from ok eq have noNA: "NA \<notin> set (map (dt_date \<circ> to_datetime P) d')"
    by (auto split: if_splits)
  from ok eq noNA have dist: "distinct (map (dt_date \<circ> to_datetime P) d')"
    by (auto split: if_splits)
  from ok eq noNA dist have w: "w = [(''date'', map (dt_date \<circ> to_datetime P) d'),
      (''temp'', map (to_numeric Q) t'), (''rain'', map (to_numeric Q) r')]"
    by simp
  from no_NA_parsed [OF noNA] obtain ts where ts: "map P d' = map Some ts" by blast
  from dates_parsed [OF ts] have dates: "map (dt_date \<circ> to_datetime P) d' = map Day (map fst ts)"
    by simp
  from dist have "distinct (map Day (map fst ts))"
    unfolding dates .
  then have "distinct (map fst ts)"
    by (simp only: distinct_map [of Day "map fst ts"])
  with w dates show "\<exists>ds t r. w = [(''date'', map Day ds), (''temp'', t), (''rain'', r)] \<and> distinct ds"
    by blast
next
  assume a: "fs path = Some weather \<and>
    normalize_weather_columns weather = Inr [(''date'', d), (''temp'', t), (''rain'', r)]"
  assume "\<exists>c \<in> set d. P c = None"
  then have "NA \<in> set (map (dt_date \<circ> to_datetime P) d)" by (simp only: NA_in_dates)
  with a show "load_weather P Q fs path =
           Inl (ValueError ''Weather file has invalid dates in the date column.'')"
    by (simp add: load_weather_normalized [of fs path weather d t r])
next
  assume a: "fs path = Some weather \<and>
    normalize_weather_columns weather = Inr [(''date'', d), (''temp'', t), (''rain'', r)]"
  assume b: "(\<forall>c \<in> set d. P c \<noteq> None) \<and> \<not> distinct (map (map_option fst \<circ> P) d)"
  then have "NA \<notin> set (map (dt_date \<circ> to_datetime P) d)" by (simp only: NA_in_dates) simp
  moreover from b have "\<not> distinct (map (dt_date \<circ> to_datetime P) d)"
    by (simp only: distinct_dates) simp
  ultimately show "load_weather P Q fs path =
           Inl (ValueError ''Weather file has duplicate dates; expected 1 row per day.'')"
    using a by (simp add: load_weather_normalized [of fs path weather d t r])
qed


theorem load_weather_validates_witness:
  "load_weather (\<lambda>c. case c of Ts dy tm \<Rightarrow> Some (dy, tm) | _ \<Rightarrow> None) num_of
     [WEATHER_PATH \<mapsto>
        [(''Date'', [Ts (2025, 10, 1) 0, Ts (2025, 10, 2) 0]),
         (''Temp_F'', [Num 70, Num 64]),
         (''Precip'', [Num 0, Num (1 / 2)])]] WEATHER_PATH =
     Inr [(''date'', [Day (2025, 10, 1), Day (2025, 10, 2)]),
          (''temp'', [Num 70, Num 64]),
          (''rain'', [Num 0, Num (1 / 2)])] \<and>
   (\<exists>ds t r.
      [(''date'', [Day (2025, 10, 1), Day (2025, 10, 2)]),
       (''temp'', [Num 70, Num 64]),
       (''rain'', [Num 0, Num (1 / 2)])] = [(''date'', map Day ds), (''temp'', t), (''rain'', r)] \<and>
      distinct ds) \<and>
   load_weather (\<lambda>c. case c of Ts dy tm \<Rightarrow> Some (dy, tm) | _ \<Rightarrow> None) num_of
     [WEATHER_PATH \<mapsto>
        [(''Date'', [Ts (2025, 10, 1) 0, Str ''tomorrow'']),
         (''Temp_F'', [Num 70, Num 64]),
         (''Precip'', [Num 0, Num (1 / 2)])]] WEATHER_PATH =
     Inl (ValueError ''Weather file has invalid dates in the date column.'') \<and>
   load_weather (\<lambda>c. case c of Ts dy tm \<Rightarrow> Some (dy, tm) | _ \<Rightarrow> None) num_of
     [WEATHER_PATH \<mapsto>
        [(''Date'', [Ts (2025, 10, 1) 0, Ts (2025, 10, 1) 43200]),
         (''Temp_F'', [Num 70, Num 64]),
         (''Precip'', [Num 0, Num (1 / 2)])]] WEATHER_PATH =
     Inl (ValueError ''Weather file has duplicate dates; expected 1 row per day.'')"
proof -
  let ?P = "\<lambda>c. case c of Ts dy tm \<Rightarrow> Some (dy, tm) | _ \<Rightarrow> None"
  let ?t = "[Num 70, Num 64]"
  let ?r = "[Num 0, Num (1 / 2)]"
  let ?good = "[Ts (2025, 10, 1) 0, Ts (2025, 10, 2) 0]"
  let ?bad = "[Ts (2025, 10, 1) 0, Str ''tomorrow'']"
  let ?dup = "[Ts (2025, 10, 1) 0, Ts (2025, 10, 1) 43200]"
  let ?file = "\<lambda>d. [(''Date'', d), (''Temp_F'', ?t), (''Precip'', ?r)]"
  let ?w = "[(''date'', [Day (2025, 10, 1), Day (2025, 10, 2)]), (''temp'', ?t), (''rain'', ?r)]"
  have norm: "normalize_weather_columns (?file d) = Inr [(''date'', d), (''temp'', ?t), (''rain'', ?r)]"
    for d
    by code_simp
  have ok: "load_weather ?P num_of [WEATHER_PATH \<mapsto> ?file ?good] WEATHER_PATH = Inr ?w"
    by code_simp
  note good = load_weather_validates
    [where P = ?P and Q = num_of and fs = "[WEATHER_PATH \<mapsto> ?file ?good]" and path = WEATHER_PATH
       and w = ?w]
  from mp [OF conjunct1 [OF good] ok]
  have shape: "\<exists>ds t r. ?w = [(''date'', map Day ds), (''temp'', t), (''rain'', r)] \<and> distinct ds" .
  have file_bad: "[WEATHER_PATH \<mapsto> ?file ?bad] WEATHER_PATH = Some (?file ?bad)" by simp
  note bad = load_weather_validates
    [where P = ?P and Q = num_of and fs = "[WEATHER_PATH \<mapsto> ?file ?bad]" and path = WEATHER_PATH
       and weather = "?file ?bad" and d = ?bad and t = ?t and r = ?r]
  have unparsed: "\<exists>c \<in> set ?bad. ?P c = None" by simp
  from mp [OF conjunct1 [OF mp [OF conjunct2 [OF bad] conjI [OF file_bad norm]]] unparsed]
  have invalid: "load_weather ?P num_of [WEATHER_PATH \<mapsto> ?file ?bad] WEATHER_PATH =
     Inl (ValueError ''Weather file has invalid dates in the date column.'')" .
  have file_dup: "[WEATHER_PATH \<mapsto> ?file ?dup] WEATHER_PATH = Some (?file ?dup)" by simp
  note dup = load_weather_validates
    [where P = ?P and Q = num_of and fs = "[WEATHER_PATH \<mapsto> ?file ?dup]" and path = WEATHER_PATH
       and weather = "?file ?dup" and d = ?dup and t = ?t and r = ?r]
  have shared: "(\<forall>c \<in> set ?dup. ?P c \<noteq> None) \<and> \<not> distinct (map (map_option fst \<circ> ?P) ?dup)"
    by simp
  from mp [OF conjunct2 [OF mp [OF conjunct2 [OF dup] conjI [OF file_dup norm]]] shared]
  have duplicate: "load_weather ?P num_of [WEATHER_PATH \<mapsto> ?file ?dup] WEATHER_PATH =
     Inl (ValueError ''Weather file has duplicate dates; expected 1 row per day.'')" .
  from ok shape invalid duplicate show ?thesis by (intro conjI)
qed


text \<open>
  When normalization returns exactly the columns \<open>d\<close>, \<open>t\<close>, \<open>r\<close> for \<open>date\<close>, \<open>temp\<close>,
  \<open>rain\<close>, every date parses and the calendar dates are pairwise distinct, the load succeeds
  whatever \<open>t\<close> and \<open>r\<close> hold: it returns the calendar dates, and each temperature and rain
  cell as its number, or missing where the cell is not numeric.
\<close>

lemma load_weather_coerces_values:
  assumes "fs path = Some weather"
    and "normalize_weather_columns weather = Inr [(''date'', d), (''temp'', t), (''rain'', r)]"
    and "map P d = map Some ts"
    and "distinct (map fst ts)"
  shows "load_weather P Q fs path =
      Inr [(''date'', map (Day \<circ> fst) ts),
           (''temp'', map (\<lambda>c. case Q c of None \<Rightarrow> NA | Some x \<Rightarrow> Num x) t),
           (''rain'', map (\<lambda>c. case Q c of None \<Rightarrow> NA | Some x \<Rightarrow> Num x) r)]"
proof -
  note dates = dates_parsed [OF assms(3)]
  have "NA \<notin> set (map (Day \<circ> fst) ts)" by auto
  moreover have "distinct (map (Day \<circ> fst) ts)"
    using assms(4) by (simp add: distinct_map inj_on_def flip: map_map)
  moreover have "to_numeric Q = (\<lambda>c. case Q c of None \<Rightarrow> NA | Some x \<Rightarrow> Num x)"
    by (rule ext) (simp add: to_numeric_def)
  ultimately show ?thesis
    by (simp add: load_weather_normalized [where fs = fs and path = path, OF assms(1) assms(2)] dates)
qed

lemma load_weather_coerces_values_example:
  "[WEATHER_PATH \<mapsto>
        [(''Date'', [Ts (2025, 10, 1) 0, Ts (2025, 10, 2) 0]),
         (''Temperature'', [Num 70, Str ''n/a'']),
         (''PRCP'', [Str ''T'', Num (1 / 2)])]] WEATHER_PATH =
     Some [(''Date'', [Ts (2025, 10, 1) 0, Ts (2025, 10, 2) 0]),
         (''Temperature'', [Num 70, Str ''n/a'']),
         (''PRCP'', [Str ''T'', Num (1 / 2)])] \<and>
   normalize_weather_columns
        [(''Date'', [Ts (2025, 10, 1) 0, Ts (2025, 10, 2) 0]),
         (''Temperature'', [Num 70, Str ''n/a'']),
         (''PRCP'', [Str ''T'', Num (1 / 2)])] =
     Inr [(''date'', [Ts (2025, 10, 1) 0, Ts (2025, 10, 2) 0]),
          (''temp'', [Num 70, Str ''n/a'']),
          (''rain'', [Str ''T'', Num (1 / 2)])] \<and>
   map (\<lambda>c. case c of Ts dy tm \<Rightarrow> Some (dy, tm) | _ \<Rightarrow> None)
       [Ts (2025, 10, 1) 0, Ts (2025, 10, 2) 0] =
     map Some [((2025, 10, 1), 0), ((2025, 10, 2), 0)] \<and>
   distinct (map fst [((2025 :: int, 10 :: int, 1 :: int), 0 :: nat), ((2025, 10, 2), 0)]) \<and>
   load_weather (\<lambda>c. case c of Ts dy tm \<Rightarrow> Some (dy, tm) | _ \<Rightarrow> None) num_of
     [WEATHER_PATH \<mapsto>
        [(''Date'', [Ts (2025, 10, 1) 0, Ts (2025, 10, 2) 0]),
         (''Temperature'', [Num 70, Str ''n/a'']),
         (''PRCP'', [Str ''T'', Num (1 / 2)])]] WEATHER_PATH =
     Inr [(''date'', [Day (2025, 10, 1), Day (2025, 10, 2)]),
          (''temp'', [Num 70, NA]),
          (''rain'', [NA, Num (1 / 2)])]"
proof -
  let ?P = "\<lambda>c. case c of Ts dy tm \<Rightarrow> Some (dy, tm) | _ \<Rightarrow> None"
  let ?d = "[Ts (2025, 10, 1) 0, Ts (2025, 10, 2) 0]"
  let ?t = "[Num 70, Str ''n/a'']"
  let ?r = "[Str ''T'', Num (1 / 2)]"
  let ?weather = "[(''Date'', ?d), (''Temperature'', ?t), (''PRCP'', ?r)]"
  let ?ts = "[((2025 :: int, 10 :: int, 1 :: int), 0 :: nat), ((2025, 10, 2), 0)]"
  have h1: "[WEATHER_PATH \<mapsto> ?weather] WEATHER_PATH = Some ?weather" by simp
  have h2: "normalize_weather_columns ?weather = Inr [(''date'', ?d), (''temp'', ?t), (''rain'', ?r)]"
    by code_simp
  have h3: "map ?P ?d = map Some ?ts" by simp
  have h4: "distinct (map fst ?ts)" by simp
  from load_weather_coerces_values
    [where fs = "[WEATHER_PATH \<mapsto> ?weather]" and path = WEATHER_PATH and P = ?P and Q = num_of,
     OF h1 h2 h3 h4]
  have "load_weather ?P num_of [WEATHER_PATH \<mapsto> ?weather] WEATHER_PATH =
     Inr [(''date'', [Day (2025, 10, 1), Day (2025, 10, 2)]),
          (''temp'', [Num 70, NA]),
          (''rain'', [NA, Num (1 / 2)])]"
    by (simp add: num_of_def)
  with h1 h2 h3 h4 show ?thesis by (intro conjI)
qed

text \<open>
  C10. A weather file whose columns are \<open>date\<close>, \<open>temp\<close>, \<open>Temp\<close>, \<open>rain\<close> has a column for each
  of the three targets, and its one date is valid. Normalization returns two columns
  labelled \<open>temp\<close> (see C8), \<open>weather["temp"]\<close> is then a table and not a column, and
  \<open>pd.to_numeric\<close> raises a \<open>TypeError\<close>: the load fails although no date is wrong,
  whatever the parsers accept.
\<close>

theorem load_weather_case_collision:
  "load_weather P Q
     [WEATHER_PATH \<mapsto>
        [(''date'', [Str ''2025-10-01'']), (''temp'', [Num 70]), (''Temp'', [Num 21]),
         (''rain'', [Num 0])]] WEATHER_PATH =
   Inl (TypeError ''arg must be a list, tuple, 1-d array, or Series'')"
proof -
  have n: "normalize_weather_columns
     [(''date'', [Str ''2025-10-01'']), (''temp'', [Num 70]), (''Temp'', [Num 21]),
      (''rain'', [Num 0])] =
   Inr [(''date'', [Str ''2025-10-01'']), (''temp'', [Num 70]), (''temp'', [Num 21]),
        (''rain'', [Num 0])]"
    by code_simp
  show ?thesis
    by (simp add: load_weather_def n assign_converted_def series_of_def getitem_def
        setitem_def columns_def not_1d_error_def)
qed

section \<open>The daily revenue\<close>





























section \<open>The daily weather derived from raw station data\<close>
















lemma and_then_cases:
  obtains e where "m = Inl e" "and_then m f = Inl e" | x where "m = Inr x" "and_then m f = f x"
  by (cases m) simp_all



lemma columns_setitem_present:
  "map_of df l = Some s \<Longrightarrow> columns (setitem df l x) = columns df"
  by (simp add: columns_setitem in_columns_iff)











section \<open>The merge of revenue and weather\<close>


















section \<open>The rain summary of a table with both groups\<close>

lemma group_of_flag:
  "map snd (filter (\<lambda>(g, v). g = k) (zip (map f xs) ys)) =
   map snd (filter (\<lambda>(x, v). f x = k) (zip xs ys))"
proof (induction xs arbitrary: ys)
  case Nil
  show ?case by simp
next
  case (Cons x xs)
  then show ?case by (cases ys) simp_all
qed

lemma two_keys:
  assumes "set xs = {0, 1 :: int}"
  shows "sort (remdups xs) = [0, 1]"
proof (rule sorted_distinct_set_unique)
  show "sorted (sort (remdups xs))" by simp
  show "distinct (sort (remdups xs))" by simp
  show "sorted [0, 1 :: int]" by simp
  show "distinct [0, 1 :: int]" by simp
  show "set (sort (remdups xs)) = set [0, 1 :: int]" using assms by simp
qed

text \<open>
  When the table has a day with rain above zero and a day without, the summary is the mean
  revenue, as pandas computes it (\<open>M\<close>), of the days without rain, labelled \<open>No Rain\<close>, and
  of the days with rain, labelled \<open>Rain\<close>. A day whose rain is missing counts as a day
  without rain.
\<close>

lemma rain_summary_two_groups:
  assumes dist: "distinct (columns df)"
    and rain: "map_of df ''rain'' = Some rain"
    and revenue: "map_of df ''revenue'' = Some revenue"
    and num_rain: "list_all is_numeric rain"
    and num_revenue: "list_all is_numeric revenue"
    and wet: "\<exists>c \<in> set rain. gt_zero c"
    and dry: "\<exists>c \<in> set rain. \<not> gt_zero c"
  shows "rain_summary M df =
     Inr [(''No Rain'',
            mean_skipna M (map snd (filter (\<lambda>(c, v). \<not> gt_zero c) (zip rain revenue)))),
          (''Rain'',
            mean_skipna M (map snd (filter (\<lambda>(c, v). gt_zero c) (zip rain revenue))))]"
proof -
  define flag where "flag = (\<lambda>c. if gt_zero c then 1 else (0 :: int))"
  define df' where "df' = setitem df ''is_rain'' (map IntVal (map flag rain))"
  have s1: "series_of (not_unique_error ''rain'') df ''rain'' = Inr rain"
    by (simp add: series_of_distinct [OF dist] rain)
  have "distinct (columns df')" unfolding df'_def using dist by (rule distinct_setitem)
  moreover have "map_of df' ''revenue'' = Some revenue"
    by (simp add: df'_def map_of_setitem revenue)
  ultimately have s2: "series_of (not_unique_error ''revenue'') df' ''revenue'' = Inr revenue"
    by (simp add: series_of_distinct)
  from wet dry have "set (map flag rain) = {0, 1}"
    by (auto simp: flag_def split: if_splits)
  then have keys: "sort (remdups (map flag rain)) = [0, 1]" by (rule two_keys)
  have g0: "(\<lambda>(x, v). flag x = 0) = (\<lambda>(c, v :: cell). \<not> gt_zero c)"
    and g1: "(\<lambda>(x, v). flag x = 1) = (\<lambda>(c, v :: cell). gt_zero c)"
    by (auto simp: flag_def fun_eq_iff)
  show ?thesis
    unfolding rain_summary_def s1 and_then_Inr Let_def flag_def [symmetric] df'_def [symmetric] s2
      keys group_of_flag
    by (simp add: num_rain num_revenue g0 g1)
qed

section \<open>Weather column names that are distinct in lower case\<close>

lemma map_of_foldl_update:
  "map_of (foldl (\<lambda>d (k, v). AList.update k v d) acc items) = map_of (rev items @ acc)"
proof (induction items arbitrary: acc)
  case Nil
  show ?case by simp
next
  case (Cons kv items)
  obtain k v where kv: "kv = (k, v)" by (cases kv)
  show ?case by (simp add: kv Cons.IH update_conv' map_add_def fun_eq_iff split: option.splits)
qed

lemma map_of_dict_of_items: "map_of (dict_of_items items) = map_of (rev items)"
  by (simp add: dict_of_items_def map_of_foldl_update)

lemma map_of_lower_cols:
  assumes "distinct (map lower (columns df))"
  shows "map_of (lower_cols df) a = Some col \<longleftrightarrow> col \<in> set (columns df) \<and> lower col = a"
proof -
  let ?items = "rev (map (\<lambda>col. (lower col, col)) (columns df))"
  have "map fst ?items = rev (map lower (columns df))" by (simp add: rev_map comp_def)
  with assms have "distinct (map fst ?items)" by simp
  then have "map_of ?items a = Some col \<longleftrightarrow> (a, col) \<in> set ?items"
    by (rule map_of_eq_Some_iff)
  then show ?thesis by (auto simp: lower_cols_def map_of_dict_of_items)
qed

lemma first_alias_None: "first_alias lc as = None \<longleftrightarrow> (\<forall>a \<in> set as. map_of lc a = None)"
  by (induction as) (auto split: option.splits)

lemma first_alias_Some:
  "first_alias lc as = Some col \<Longrightarrow> \<exists>a \<in> set as. map_of lc a = Some col"
  by (induction as) (auto split: option.splits)

lemma map_of_resolve_aliases:
  "map_of (resolve_aliases lc) n =
     (if first_alias lc [''rain'', ''precip'', ''precipitation'', ''rainfall'', ''prcp''] = Some n
      then Some ''rain''
      else if first_alias lc [''temp'', ''temperature'', ''temp_f'', ''tavg''] = Some n
      then Some ''temp''
      else if first_alias lc [''date'', ''day'', ''obs_date''] = Some n
      then Some ''date''
      else None)"
proof -
  define fd where "fd = first_alias lc [''date'', ''day'', ''obs_date'']"
  define ft where "ft = first_alias lc [''temp'', ''temperature'', ''temp_f'', ''tavg'']"
  define fr where "fr = first_alias lc [''rain'', ''precip'', ''precipitation'', ''rainfall'', ''prcp'']"
  have "resolve_aliases lc =
      (let r0 = [];
           r1 = (case fd of Some col \<Rightarrow> AList.update col ''date'' r0 | None \<Rightarrow> r0);
           r2 = (case ft of Some col \<Rightarrow> AList.update col ''temp'' r1 | None \<Rightarrow> r1)
       in (case fr of Some col \<Rightarrow> AList.update col ''rain'' r2 | None \<Rightarrow> r2))"
    unfolding resolve_aliases_def WEATHER_COLUMN_ALIASES_def fd_def ft_def fr_def
    by (simp only: foldl.simps prod.case Let_def)
  then have "map_of (resolve_aliases lc) n =
     (if fr = Some n then Some ''rain''
      else if ft = Some n then Some ''temp''
      else if fd = Some n then Some ''date''
      else None)"
    by (cases fd; cases ft; cases fr) (simp_all add: Let_def update_conv')
  then show ?thesis unfolding fd_def ft_def fr_def .
qed

lemma aliases_disjoint:
  "set [''date'', ''day'', ''obs_date''] \<inter> set [''temp'', ''temperature'', ''temp_f'', ''tavg''] = {}"
  "set [''date'', ''day'', ''obs_date''] \<inter>
     set [''rain'', ''precip'', ''precipitation'', ''rainfall'', ''prcp''] = {}"
  "set [''temp'', ''temperature'', ''temp_f'', ''tavg''] \<inter>
     set [''rain'', ''precip'', ''precipitation'', ''rainfall'', ''prcp''] = {}"
  by simp_all

lemma first_alias_column:
  assumes "distinct (map lower (columns df))"
    and "first_alias (lower_cols df) as = Some n"
  shows "n \<in> set (columns df) \<and> lower n \<in> set as"
proof -
  from first_alias_Some [OF assms(2)] obtain a where
    a: "a \<in> set as" and "map_of (lower_cols df) a = Some n" ..
  with map_of_lower_cols [OF assms(1), of a n] show ?thesis by simp
qed

lemma first_alias_head:
  assumes "distinct (map lower (columns df))"
    and "n \<in> set (columns df)" and "lower n = a"
  shows "first_alias (lower_cols df) (a # as) = Some n"
proof -
  from assms have "map_of (lower_cols df) a = Some n" by (simp add: map_of_lower_cols)
  then show ?thesis by simp
qed

lemma first_alias_exclusive:
  assumes d: "distinct (map lower (columns df))"
    and a: "first_alias (lower_cols df) as = Some n"
    and b: "first_alias (lower_cols df) bs = Some n"
  shows "set as \<inter> set bs \<noteq> {}"
proof -
  from first_alias_column [OF d a] first_alias_column [OF d b]
  have "lower n \<in> set as \<inter> set bs" by simp
  then show ?thesis by blast
qed

lemma filter_renamed:
  "filter (\<lambda>(n, s). n = t) (map (\<lambda>(n, s). (f n, s)) df) =
   map (\<lambda>(n, s). (t, s)) (filter (\<lambda>(n, s). f n = t) df)"
  by (induction df) auto

lemma filter_column:
  assumes "distinct (columns df)" "map_of df m = Some s"
  shows "filter (\<lambda>(n, s). n = m) df = [(m, s)]"
proof -
  from assms have "getitem df m = [s]" by (simp add: getitem_distinct)
  then show ?thesis by (rule filter_label_single)
qed

lemma filter_target:
  assumes dc: "distinct (columns df)"
    and nu: "\<forall>n \<in> set (columns df). nu n = t \<longleftrightarrow> f = Some n"
    and col: "\<forall>m. f = Some m \<longrightarrow> m \<in> set (columns df)"
  shows "filter (\<lambda>(n, s). n = t) (map (\<lambda>(n, s). (nu n, s)) df) =
     (case f of None \<Rightarrow> [] | Some m \<Rightarrow> (case map_of df m of None \<Rightarrow> [] | Some s \<Rightarrow> [(t, s)]))"
proof -
  have "filter (\<lambda>(n, s). nu n = t) df = filter (\<lambda>(n, s). f = Some n) df"
  proof (rule filter_cong [OF refl])
    fix x assume "x \<in> set df"
    then have "fst x \<in> set (columns df)" by (simp add: columns_def)
    with nu have "nu (fst x) = t \<longleftrightarrow> f = Some (fst x)" by (rule bspec)
    then show "(case x of (n, s) \<Rightarrow> nu n = t) = (case x of (n, s) \<Rightarrow> f = Some n)"
      by (simp add: case_prod_beta)
  qed
  then have step: "filter (\<lambda>(n, s). n = t) (map (\<lambda>(n, s). (nu n, s)) df) =
      map (\<lambda>(n, s). (t, s)) (filter (\<lambda>(n, s). f = Some n) df)"
    by (simp only: filter_renamed)
  show ?thesis
  proof (cases f)
    case None
    with step show ?thesis by simp
  next
    case (Some m)
    with col have "m \<in> set (columns df)" by simp
    then obtain s where s: "map_of df m = Some s" by (auto simp: in_columns_iff)
    have "(\<lambda>(n, s :: series). Some m = Some n) = (\<lambda>(n, s). n = m)" by auto
    with step Some filter_column [OF dc s] s show ?thesis by simp
  qed
qed

lemma target_present:
  assumes nu: "\<forall>n \<in> set (columns df). nu n = t \<longleftrightarrow> f = Some n"
    and col: "\<forall>m. f = Some m \<longrightarrow> m \<in> set (columns df)"
  shows "t \<in> set (columns (map (\<lambda>(n, s). (nu n, s)) df)) \<longleftrightarrow> f \<noteq> None"
proof -
  have cols: "columns (map (\<lambda>(n, s). (nu n, s)) df) = map nu (columns df)"
    by (simp add: columns_def case_prod_beta comp_def)
  show ?thesis
  proof
    assume "t \<in> set (columns (map (\<lambda>(n, s). (nu n, s)) df))"
    then obtain n where n: "n \<in> set (columns df)" and "nu n = t"
      unfolding cols by auto
    with nu have "f = Some n" by simp
    then show "f \<noteq> None" by simp
  next
    assume "f \<noteq> None"
    then obtain m where m: "f = Some m" by (cases f) simp_all
    with col have in_cols: "m \<in> set (columns df)" by simp
    with nu m have "nu m = t" by simp
    with in_cols show "t \<in> set (columns (map (\<lambda>(n, s). (nu n, s)) df))"
      unfolding cols by auto
  qed
qed

text \<open>
  When no two columns have the same lower-cased name, each target is resolved to the column
  of the first of its aliases that is the lower-cased name of a column. With all three
  targets resolved the result has exactly the columns \<open>date\<close>, \<open>temp\<close>, \<open>rain\<close>, holding
  the resolved columns; otherwise the \<open>ValueError\<close> names the targets without a matching
  alias, in the order \<open>date\<close>, \<open>temp\<close>, \<open>rain\<close>.
\<close>

lemma normalize_weather_columns_resolved:
  assumes d: "distinct (map lower (columns df))"
  shows "(\<forall>cd ct cr.
            first_alias (lower_cols df) [''date'', ''day'', ''obs_date''] = Some cd \<and>
            first_alias (lower_cols df) [''temp'', ''temperature'', ''temp_f'', ''tavg''] = Some ct \<and>
            first_alias (lower_cols df)
              [''rain'', ''precip'', ''precipitation'', ''rainfall'', ''prcp''] = Some cr \<longrightarrow>
            (\<exists>sd st sr. map_of df cd = Some sd \<and> map_of df ct = Some st \<and> map_of df cr = Some sr \<and>
               normalize_weather_columns df =
                 Inr [(''date'', sd), (''temp'', st), (''rain'', sr)])) \<and>
         (first_alias (lower_cols df) [''date'', ''day'', ''obs_date''] = None \<or>
          first_alias (lower_cols df) [''temp'', ''temperature'', ''temp_f'', ''tavg''] = None \<or>
          first_alias (lower_cols df)
            [''rain'', ''precip'', ''precipitation'', ''rainfall'', ''prcp''] = None \<longrightarrow>
            normalize_weather_columns df =
              Inl (ValueError
                (''Weather file missing required columns. '' @
                 ''Expected columns like: '' @ join '', '' [''date'', ''temp'', ''rain''] @ ''. '' @
                 ''Missing: '' @
                 join '', ''
                   (filter (\<lambda>t. \<forall>as. (t, as) \<in> set WEATHER_COLUMN_ALIASES \<longrightarrow>
                                  first_alias (lower_cols df) as = None)
                      [''date'', ''temp'', ''rain'']) @ ''.'')))"
proof -
  define lc where "lc = lower_cols df"
  define fd where "fd = first_alias lc [''date'', ''day'', ''obs_date'']"
  define ft where "ft = first_alias lc [''temp'', ''temperature'', ''temp_f'', ''tavg'']"
  define fr where "fr = first_alias lc [''rain'', ''precip'', ''precipitation'', ''rainfall'', ''prcp'']"
  define nu where "nu = (\<lambda>n. case map_of (resolve_aliases lc) n of Some t \<Rightarrow> t | None \<Rightarrow> n)"
  define df' where "df' = rename_columns (resolve_aliases lc) df"
  have dc: "distinct (columns df)"
    using d by (rule distinct_map [THEN iffD1, THEN conjunct1])
  have res: "map_of (resolve_aliases lc) n =
     (if fr = Some n then Some ''rain'' else if ft = Some n then Some ''temp''
      else if fd = Some n then Some ''date'' else None)" for n
    unfolding fd_def ft_def fr_def by (rule map_of_resolve_aliases)
  have dt: "\<not> (fd = Some n \<and> ft = Some n)" for n
    using first_alias_exclusive [OF d, of "[''date'', ''day'', ''obs_date'']" n
        "[''temp'', ''temperature'', ''temp_f'', ''tavg'']"] aliases_disjoint(1)
    unfolding fd_def ft_def lc_def by blast
  have dr: "\<not> (fd = Some n \<and> fr = Some n)" for n
    using first_alias_exclusive [OF d, of "[''date'', ''day'', ''obs_date'']" n
        "[''rain'', ''precip'', ''precipitation'', ''rainfall'', ''prcp'']"] aliases_disjoint(2)
    unfolding fd_def fr_def lc_def by blast
  have tr: "\<not> (ft = Some n \<and> fr = Some n)" for n
    using first_alias_exclusive [OF d, of "[''temp'', ''temperature'', ''temp_f'', ''tavg'']" n
        "[''rain'', ''precip'', ''precipitation'', ''rainfall'', ''prcp'']"] aliases_disjoint(3)
    unfolding ft_def fr_def lc_def by blast
  have low: "lower ''date'' = ''date''" "lower ''temp'' = ''temp''" "lower ''rain'' = ''rain''"
    by code_simp+
  have hd: "fd = Some ''date''" if "''date'' \<in> set (columns df)"
    unfolding fd_def lc_def using d that low(1) by (rule first_alias_head)
  have ht: "ft = Some ''temp''" if "''temp'' \<in> set (columns df)"
    unfolding ft_def lc_def using d that low(2) by (rule first_alias_head)
  have hr: "fr = Some ''rain''" if "''rain'' \<in> set (columns df)"
    unfolding fr_def lc_def using d that low(3) by (rule first_alias_head)
  have nd: "nu n = ''date'' \<longleftrightarrow> fd = Some n" if "n \<in> set (columns df)" for n
    using that dt [of n] dr [of n] hd by (auto simp: nu_def res split: if_splits)
  have nt: "nu n = ''temp'' \<longleftrightarrow> ft = Some n" if "n \<in> set (columns df)" for n
    using that dt [of n] tr [of n] ht by (auto simp: nu_def res split: if_splits)
  have nr: "nu n = ''rain'' \<longleftrightarrow> fr = Some n" if "n \<in> set (columns df)" for n
    using that dr [of n] tr [of n] hr by (auto simp: nu_def res split: if_splits)
  have df': "df' = map (\<lambda>(n, s). (nu n, s)) df"
    by (simp add: df'_def rename_columns_def nu_def)
  have cd: "\<forall>m. fd = Some m \<longrightarrow> m \<in> set (columns df)"
    and ct: "\<forall>m. ft = Some m \<longrightarrow> m \<in> set (columns df)"
    and cr: "\<forall>m. fr = Some m \<longrightarrow> m \<in> set (columns df)"
    unfolding fd_def ft_def fr_def lc_def using first_alias_column [OF d] by blast+
  have sd: "filter (\<lambda>(n, s). n = ''date'') df' =
     (case fd of None \<Rightarrow> [] | Some m \<Rightarrow> (case map_of df m of None \<Rightarrow> [] | Some s \<Rightarrow> [(''date'', s)]))"
    unfolding df' using dc _ cd by (rule filter_target) (simp add: nd)
  have st: "filter (\<lambda>(n, s). n = ''temp'') df' =
     (case ft of None \<Rightarrow> [] | Some m \<Rightarrow> (case map_of df m of None \<Rightarrow> [] | Some s \<Rightarrow> [(''temp'', s)]))"
    unfolding df' using dc _ ct by (rule filter_target) (simp add: nt)
  have sr: "filter (\<lambda>(n, s). n = ''rain'') df' =
     (case fr of None \<Rightarrow> [] | Some m \<Rightarrow> (case map_of df m of None \<Rightarrow> [] | Some s \<Rightarrow> [(''rain'', s)]))"
    unfolding df' using dc _ cr by (rule filter_target) (simp add: nr)
  have in_d: "''date'' \<in> set (columns df') \<longleftrightarrow> fd \<noteq> None"
    unfolding df' using _ cd by (rule target_present) (simp add: nd)
  have in_t: "''temp'' \<in> set (columns df') \<longleftrightarrow> ft \<noteq> None"
    unfolding df' using _ ct by (rule target_present) (simp add: nt)
  have in_r: "''rain'' \<in> set (columns df') \<longleftrightarrow> fr \<noteq> None"
    unfolding df' using _ cr by (rule target_present) (simp add: nr)
  define missing where
    "missing = filter (\<lambda>col. col \<notin> set (columns df')) [''date'', ''temp'', ''rain'']"
  have norm: "normalize_weather_columns df =
      (if missing \<noteq> []
       then Inl (ValueError
                (''Weather file missing required columns. '' @
                 ''Expected columns like: '' @ join '', '' [''date'', ''temp'', ''rain''] @ ''. '' @
                 ''Missing: '' @ join '', '' missing @ ''.''))
       else select_columns [''date'', ''temp'', ''rain''] df')"
    unfolding normalize_weather_columns_def Let_def missing_def df'_def lc_def ..
  have ad: "(\<forall>as. (''date'', as) \<in> set WEATHER_COLUMN_ALIASES \<longrightarrow> first_alias lc as = None) \<longleftrightarrow>
      fd = None"
    and at: "(\<forall>as. (''temp'', as) \<in> set WEATHER_COLUMN_ALIASES \<longrightarrow> first_alias lc as = None) \<longleftrightarrow>
      ft = None"
    and ar: "(\<forall>as. (''rain'', as) \<in> set WEATHER_COLUMN_ALIASES \<longrightarrow> first_alias lc as = None) \<longleftrightarrow>
      fr = None"
    by (simp_all add: WEATHER_COLUMN_ALIASES_def fd_def ft_def fr_def)
  have miss: "missing =
      filter (\<lambda>t. \<forall>as. (t, as) \<in> set WEATHER_COLUMN_ALIASES \<longrightarrow> first_alias lc as = None)
        [''date'', ''temp'', ''rain'']"
    unfolding missing_def by (simp only: filter.simps in_d in_t in_r ad at ar not_not)
  have empty: "missing = [] \<longleftrightarrow> fd \<noteq> None \<and> ft \<noteq> None \<and> fr \<noteq> None"
    unfolding missing_def by (simp add: in_d in_t in_r)
  have part1: "\<exists>sd st sr. map_of df cd = Some sd \<and> map_of df ct = Some st \<and> map_of df cr = Some sr \<and>
               normalize_weather_columns df =
                 Inr [(''date'', sd), (''temp'', st), (''rain'', sr)]"
    if f: "fd = Some cd \<and> ft = Some ct \<and> fr = Some cr" for cd ct cr
  proof -
    from f cd ct cr have "cd \<in> set (columns df)" "ct \<in> set (columns df)" "cr \<in> set (columns df)"
      by simp_all
    then obtain s1 s2 s3 where s: "map_of df cd = Some s1" "map_of df ct = Some s2"
      "map_of df cr = Some s3"
      by (auto simp: in_columns_iff)
    from f have "missing = []" by (simp add: empty)
    then have "normalize_weather_columns df = select_columns [''date'', ''temp'', ''rain''] df'"
      by (simp add: norm)
    also have "\<dots> = Inr [(''date'', s1), (''temp'', s2), (''rain'', s3)]"
      using f by (simp add: select_columns_def in_d in_t in_r sd st sr s)
    finally show ?thesis using s by (intro exI [of _ s1] exI [of _ s2] exI [of _ s3] conjI)
  qed
  have part2: "normalize_weather_columns df =
      Inl (ValueError
                (''Weather file missing required columns. '' @
                 ''Expected columns like: '' @ join '', '' [''date'', ''temp'', ''rain''] @ ''. '' @
                 ''Missing: '' @
                 join '', ''
                   (filter (\<lambda>t. \<forall>as. (t, as) \<in> set WEATHER_COLUMN_ALIASES \<longrightarrow>
                                  first_alias lc as = None)
                      [''date'', ''temp'', ''rain'']) @ ''.''))"
    if "fd = None \<or> ft = None \<or> fr = None"
  proof -
    from that have "missing \<noteq> []" by (auto simp: empty)
    then show ?thesis unfolding miss [symmetric] by (simp only: norm if_True simp_thms)
  qed
  show ?thesis
    unfolding lc_def [symmetric] fd_def [symmetric] ft_def [symmetric] fr_def [symmetric]
    by (intro conjI allI impI; (rule part1 | rule part2); assumption)
qed

text \<open>
  So a weather file in which no two columns have the same lower-cased name, each target has
  a column, every date parses and the calendar dates are pairwise distinct is loaded
  whatever its temperature and rain cells hold, a cell that is not numeric becoming missing.
\<close>

lemma load_weather_coerces_resolved:
  assumes exists: "fs path = Some weather"
    and names: "distinct (map lower (columns weather))"
    and cd: "first_alias (lower_cols weather) [''date'', ''day'', ''obs_date''] = Some cd"
    and ct: "first_alias (lower_cols weather)
               [''temp'', ''temperature'', ''temp_f'', ''tavg''] = Some ct"
    and cr: "first_alias (lower_cols weather)
               [''rain'', ''precip'', ''precipitation'', ''rainfall'', ''prcp''] = Some cr"
    and d: "map_of weather cd = Some d"
    and t: "map_of weather ct = Some t"
    and r: "map_of weather cr = Some r"
    and parsed: "map P d = map Some ts"
    and unique: "distinct (map fst ts)"
  shows "load_weather P Q fs path =
      Inr [(''date'', map (Day \<circ> fst) ts),
           (''temp'', map (\<lambda>c. case Q c of None \<Rightarrow> NA | Some x \<Rightarrow> Num x) t),
           (''rain'', map (\<lambda>c. case Q c of None \<Rightarrow> NA | Some x \<Rightarrow> Num x) r)]"
proof -
  from normalize_weather_columns_resolved [OF names, THEN conjunct1, THEN spec, THEN spec,
      THEN spec, THEN mp, OF conjI [OF cd conjI [OF ct cr]]]
  obtain sd st sr where "map_of weather cd = Some sd" "map_of weather ct = Some st"
    "map_of weather cr = Some sr" and
    n: "normalize_weather_columns weather = Inr [(''date'', sd), (''temp'', st), (''rain'', sr)]"
    by (elim exE conjE)
  with d t r have "sd = d" "st = t" "sr = r" by simp_all
  with n have "normalize_weather_columns weather = Inr [(''date'', d), (''temp'', t), (''rain'', r)]"
    by simp
  with exists show ?thesis using parsed unique by (rule load_weather_coerces_values)
qed

end
